theory Spec2Isabelle
  imports Complex_Main "HOL-Library.Char_ord" "HOL-Library.List_Lexorder" "HOL-Library.Multiset"
    "HOL-Library.Log_Nat"
begin

section \<open>Needler: the peptide targeting optimizer of \<^verbatim>\<open>src/needler.py\<close>\<close>

text \<open>
  The development embeds the class \<^verbatim>\<open>Needler\<close> (\<^verbatim>\<open>load\<close>, \<^verbatim>\<open>build_model\<close>,
  \<^verbatim>\<open>save\<close>, \<^verbatim>\<open>optimize\<close>) and \<^verbatim>\<open>main\<close>.

  \<^item> The data frame \<^verbatim>\<open>self.df\<close> is a list of rows, one record field per column the
    program reads or writes, and the list of column names of the input file.
  \<^item> A Python exception is a value of \<open>py_error\<close>; a function that can raise returns
    \<open>(py_error \<times> needler) + needler\<close>: \<open>Inl\<close> carries the exception and the state at
    the moment it is raised (log and file system included), \<open>Inr\<close> the state on return.
  \<^item> The satisfiability engine (z3) is not part of the repository. The constraints handed
    to it are data (\<open>constraint\<close>); what the engine answers on each \<^verbatim>\<open>check()\<close>, the
    wall clock, \<^verbatim>\<open>uuid.uuid4\<close> and \<^verbatim>\<open>random.shuffle\<close> are parameters (\<open>env\<close>).
  \<^item> The retention time column is \<^verbatim>\<open>int64\<close> or \<^verbatim>\<open>float64\<close>, as pandas infers it from the
    file. A value of it is the rational number the cell denotes: an integer of the 64-bit
    range in an \<^verbatim>\<open>int64\<close> column, a finite binary64 number in a \<^verbatim>\<open>float64\<close> column.
    \<^verbatim>\<open>time - rt_width\<close> and \<^verbatim>\<open>time + rt_width\<close> are computed as numpy computes them: with
    two's complement wrap-around in an \<^verbatim>\<open>int64\<close> column, in binary64 arithmetic (round to
    nearest, ties to even) in a \<^verbatim>\<open>float64\<close> column.
  \<^item> Python integers are \<open>int\<close>. The arithmetic of \<^verbatim>\<open>build_model\<close> on the columns
    \<^verbatim>\<open>rt_start\<close> and \<^verbatim>\<open>rt_stop\<close> is on \<open>int\<close> as well.
\<close>

subsection \<open>Exceptions, log records, command line\<close>

datatype py_error =
    AttributeError string
  | NameError string
  | UnboundLocalError string
  | KeyError string
  | FileNotFoundError string
  | Z3Exception string
  | ArgumentError string
  | OverflowError string
  | ValueError string

datatype level = DEBUG | INFO | WARNING | ERROR

text \<open>A call of the logger: level, message text, and the numbers formatted into it.\<close>

type_synonym log_record = "level \<times> string \<times> int list"

text \<open>
  The module-level name \<^verbatim>\<open>args\<close> (the \<^verbatim>\<open>argparse\<close> namespace). It is bound only when the
  file runs as a script (\<^verbatim>\<open>args = get_args()\<close> under \<^verbatim>\<open>__main__\<close>); the methods read two
  of its attributes. An unbound \<^verbatim>\<open>args\<close> is \<open>None\<close>.
\<close>

record cli_args =
  args_shuffle :: bool
  args_peps_per_prot :: int

subsection \<open>The data frame\<close>

record row =
  accession :: string
  peptide_sequence :: string
  prosit_predicted_rt_seconds :: rat
  protein_id :: string
  peptide_id :: string
  protein_peps :: nat
  rt_start :: int
  rt_stop :: int
  peptide_in_model :: bool
  protein_is_targeted :: bool

text \<open>
  The parsed input file (\<^verbatim>\<open>pd.read_csv(self.db_src)\<close>): its column names and its rows. Of a
  row of the file only the columns named in \<open>header\<close> carry data; \<^verbatim>\<open>load\<close> raises before it
  reads a column that is absent. The columns \<^verbatim>\<open>isoform\<close>, \<^verbatim>\<open>name\<close>, \<^verbatim>\<open>gene\<close> and
  \<^verbatim>\<open>peptide\<close> are only copied to the result file: their presence is modelled, not their
  content. \<open>rt_dtype\<close> is the type pandas infers for the column
  \<^verbatim>\<open>prosit_predicted_rt_seconds\<close>: \<^verbatim>\<open>int64\<close> when every cell is an integer literal,
  \<^verbatim>\<open>float64\<close> otherwise.
\<close>

datatype dtype = int64 | float64

record table =
  header :: "string list"
  rt_dtype :: dtype
  body :: "row list"

subsection \<open>Constraints given to the engine\<close>

text \<open>
  \<^verbatim>\<open>z3.Bool(pep_id)\<close> is the variable named \<open>pep_id\<close>. The expressions built by the program:
  \<^verbatim>\<open>z3.AtMost(*bools, k)\<close>, \<^verbatim>\<open>z3.PbEq(pairs, k)\<close>, \<^verbatim>\<open>z3.Or(a, b)\<close>,
  \<^verbatim>\<open>z3.If(c, 1, 0)\<close> and \<^verbatim>\<open>z3.Sum(terms) > k\<close>.
\<close>

type_synonym var = string

datatype z3_bool =
    AtMost "var list" int
  | PbEq "(var \<times> int) list" int
  | Or z3_bool z3_bool

datatype z3_int = If z3_bool int int

datatype constraint =
    Assert z3_bool
  | SumGt "z3_int list" int

text \<open>
  What the expressions mean under an assignment of the variables (the engine's semantics
  of cardinality and pseudo-boolean constraints). The bound of \<^verbatim>\<open>AtMost\<close> is read as a
  mathematical integer; the theorems that use it assume a bound \<open>\<ge> 0\<close>.
\<close>

fun holds_bool :: "(var \<Rightarrow> bool) \<Rightarrow> z3_bool \<Rightarrow> bool" where
  "holds_bool m (AtMost vs k) = (int (length (filter m vs)) \<le> k)"
| "holds_bool m (PbEq ps k) = ((\<Sum>p\<leftarrow>ps. if m (fst p) then snd p else 0) = k)"
| "holds_bool m (Or a b) = (holds_bool m a \<or> holds_bool m b)"

fun eval_int :: "(var \<Rightarrow> bool) \<Rightarrow> z3_int \<Rightarrow> int" where
  "eval_int m (If c a b) = (if holds_bool m c then a else b)"

fun holds :: "(var \<Rightarrow> bool) \<Rightarrow> constraint \<Rightarrow> bool" where
  "holds m (Assert b) = holds_bool m b"
| "holds m (SumGt ts k) = ((\<Sum>t\<leftarrow>ts. eval_int m t) > k)"

text \<open>The answer of \<^verbatim>\<open>solver.check()\<close>; \<open>sat\<close> carries the variables its model makes true.\<close>

datatype z3_result = sat "var list" | unsat | unknown

subsection \<open>The environment\<close>

text \<open>
  \<^item> \<open>check i cs\<close>: the engine's answer to the \<open>i\<close>-th \<^verbatim>\<open>check()\<close> on the assertions \<open>cs\<close>;
  \<^item> \<open>elapsed i\<close>: seconds between \<^verbatim>\<open>start_dt\<close> and the clock reading after that check;
  \<^item> \<open>uuid_protein\<close>, \<open>uuid_peptide\<close>: the \<^verbatim>\<open>uuid4\<close> drawn for a protein group and for the
    row at a position;
  \<^item> \<open>sample_order\<close>, \<open>shuffle_protein\<close>, \<open>shuffle_steps\<close>, \<open>shuffle_slot\<close>: the order that
    \<^verbatim>\<open>df.sample(frac=1)\<close> and each \<^verbatim>\<open>random.shuffle\<close> produce, as a list of positions.
\<close>

record env =
  check :: "nat \<Rightarrow> constraint list \<Rightarrow> z3_result"
  elapsed :: "nat \<Rightarrow> rat"
  uuid_protein :: "string \<Rightarrow> string"
  uuid_peptide :: "nat \<Rightarrow> string"
  sample_order :: "nat list"
  shuffle_protein :: "string \<Rightarrow> nat list"
  shuffle_steps :: "nat list"
  shuffle_slot :: "int \<Rightarrow> nat list"

text \<open>
  A reordering of a list by positions. A shuffle always returns a permutation of its
  argument, so a position list that is not a permutation of \<open>[0..<length xs]\<close> leaves the
  list as it is.
\<close>

definition permute :: "nat list \<Rightarrow> 'a list \<Rightarrow> 'a list" where
  "permute p xs = (if sort p = [0..<length xs] then map (\<lambda>i. xs ! i) p else xs)"

subsection \<open>The state: the instance, the log and the file system\<close>

text \<open>A written result file: one line per row, with the modelled columns.\<close>

type_synonym artifact = "(string \<times> string \<times> rat \<times> int \<times> int) list"

text \<open>
  \<open>files\<close> lists the files written, the newest first: \<open>map_of (files s) p\<close> is the content
  at path \<open>p\<close>. \<open>checks\<close> counts the calls of \<^verbatim>\<open>solver.check()\<close>; it numbers the answers
  of the environment. \<open>trace\<close> is an observation of the run, not a variable of the program:
  \<open>(protein_target, best_ever_result, saved)\<close> for every satisfiable iteration of
  \<^verbatim>\<open>optimize\<close>, in order, \<open>saved\<close> telling whether \<^verbatim>\<open>self.save()\<close> was called in it.
\<close>

record needler =
  dst :: string
  rt_width :: int
  targets_per_cycle :: int
  peps_per_prot :: int
  timeout :: int
  shuffle :: bool
  sort_groups :: bool
  columns :: "string list"
  df :: "row list"
  protein_order :: "string list"
  peptide_order :: "string list"
  peptides :: "(string \<times> var) list"
  proteins_targeted :: "z3_int list"
  z3_timeout :: "int option"
  assertions :: "constraint list"
  checks :: nat
  log :: "log_record list"
  dirs :: "string list"
  files :: "(string \<times> artifact) list"
  trace :: "(nat \<times> nat \<times> bool) list"

type_synonym result = "(py_error \<times> needler) + needler"

definition logger :: "level \<Rightarrow> string \<Rightarrow> int list \<Rightarrow> needler \<Rightarrow> needler" where
  "logger l msg ns s = s\<lparr>log := log s @ [(l, msg, ns)]\<rparr>"

subsection \<open>Helpers for pandas and Python built-ins\<close>

text \<open>\<^verbatim>\<open>Series.nunique()\<close>, \<^verbatim>\<open>len(set(xs))\<close>.\<close>

definition nunique :: "'a list \<Rightarrow> nat" where
  "nunique xs = length (remdups xs)"

text \<open>\<^verbatim>\<open>list(dict.fromkeys(xs))\<close>: first occurrences, in order.\<close>

definition fromkeys :: "'a list \<Rightarrow> 'a list" where
  "fromkeys xs = rev (remdups (rev xs))"

text \<open>Python's \<^verbatim>\<open>int(x)\<close> on a finite float: truncation toward zero.\<close>

definition toward_zero :: "rat \<Rightarrow> int" where
  "toward_zero x = (if 0 \<le> x then \<lfloor>x\<rfloor> else \<lceil>x\<rceil>)"

text \<open>
  \<^verbatim>\<open>.astype(int)\<close> on a finite binary64 number: truncation toward zero into \<^verbatim>\<open>int64\<close>. Out of
  the 64-bit range the conversion yields the smallest \<^verbatim>\<open>int64\<close> (what the x86-64
  conversion instruction returns; C leaves the value open).
\<close>

definition astype_int :: "rat \<Rightarrow> int" where
  "astype_int x =
     (let k = toward_zero x in if - (2 ^ 63) \<le> k \<and> k < 2 ^ 63 then k else - (2 ^ 63))"

text \<open>numpy \<^verbatim>\<open>int64\<close> arithmetic: the result modulo \<open>2^64\<close>, in two's complement.\<close>

definition wrap64 :: "int \<Rightarrow> int" where
  "wrap64 x = (x + 2 ^ 63) mod 2 ^ 64 - 2 ^ 63"

text \<open>
  Binary64 arithmetic. \<open>binary64 x\<close> is the rational \<open>x\<close> rounded to the nearest number
  with a 53-bit significand, ties to the even significand; below \<open>2^-1022\<close> the spacing
  stays \<open>2^-1074\<close>. A result of magnitude \<open>2^1024\<close> or more stands for an infinity.
  \<open>ilog2 x\<close> is \<open>floor(log2 x)\<close> for \<open>x > 0\<close> (\<open>bitlen k\<close> is the number of binary digits
  of \<open>k\<close>).
\<close>

definition pow2 :: "int \<Rightarrow> rat" where
  "pow2 e = (if 0 \<le> e then 2 ^ nat e else 1 / 2 ^ nat (- e))"

definition ilog2 :: "rat \<Rightarrow> int" where
  "ilog2 x =
     (if 1 \<le> x then bitlen \<lfloor>x\<rfloor> - 1 else - bitlen (\<lceil>1 / x\<rceil> - 1))"

definition round_half_even :: "rat \<Rightarrow> int" where
  "round_half_even y =
     (let f = \<lfloor>y\<rfloor>; d = y - of_int f
      in if d < 1 / 2 then f else if 1 / 2 < d then f + 1 else if even f then f else f + 1)"

definition binary64 :: "rat \<Rightarrow> rat" where
  "binary64 x =
     (if x = 0 then 0
      else let q = pow2 (max (ilog2 \<bar>x\<bar>) (- 1022) - 52)
           in of_int (round_half_even (x / q)) * q)"

text \<open>
  The column \<^verbatim>\<open>(time + sign * rt_width).astype(int)\<close>, \<open>sign\<close> being \<open>-1\<close> or \<open>1\<close>: the value
  of a cell, and the exception the operation raises on the whole column, if any. In an
  \<^verbatim>\<open>int64\<close> column a width out of the 64-bit range is refused and the sum wraps around;
  in a \<^verbatim>\<open>float64\<close> column the width is converted to binary64 (refused when too large),
  the sum is rounded, and \<^verbatim>\<open>astype\<close> refuses a column with an infinite value.
\<close>

definition shift_cell :: "dtype \<Rightarrow> int \<Rightarrow> rat \<Rightarrow> int \<Rightarrow> int" where
  "shift_cell dt sign t w =
     (case dt of
        int64 \<Rightarrow> wrap64 (\<lfloor>t\<rfloor> + sign * w)
      | float64 \<Rightarrow> astype_int (binary64 (t + of_int sign * binary64 (of_int w))))"

definition shift_error :: "dtype \<Rightarrow> int \<Rightarrow> rat list \<Rightarrow> int \<Rightarrow> py_error option" where
  "shift_error dt sign ts w =
     (case dt of
        int64 \<Rightarrow>
          if w < - (2 ^ 63) \<or> 2 ^ 63 \<le> w
          then Some (OverflowError ''Python integer out of bounds for int64'')
          else None
      | float64 \<Rightarrow>
          if 2 ^ 1024 \<le> \<bar>binary64 (of_int w)\<bar>
          then Some (OverflowError ''int too large to convert to float'')
          else if list_ex (\<lambda>t. 2 ^ 1024 \<le> \<bar>binary64 (t + of_int sign * binary64 (of_int w))\<bar>) ts
          then Some (ValueError ''Cannot convert non-finite values (NA or inf) to integer'')
          else None)"

text \<open>\<^verbatim>\<open>Series.min()\<close> and \<^verbatim>\<open>Series.max()\<close> of a non-empty integer column.\<close>

definition col_min :: "int list \<Rightarrow> int" where
  "col_min xs = fold min (tl xs) (hd xs)"

definition col_max :: "int list \<Rightarrow> int" where
  "col_max xs = fold max (tl xs) (hd xs)"

subsection \<open>\<^verbatim>\<open>Needler.load\<close>\<close>

text \<open>
  Lines 84--94: read the file, name the protein and peptide of every row, count the
  distinct peptides of its protein. \<^verbatim>\<open>self.df.accession\<close> on a frame without that column
  raises \<^verbatim>\<open>AttributeError\<close>.
\<close>

definition group_nunique :: "row list \<Rightarrow> row \<Rightarrow> nat" where
  "group_nunique rows r =
     nunique (map peptide_id (filter (\<lambda>x. protein_id x = protein_id r) rows))"

definition read_input :: "table \<Rightarrow> needler \<Rightarrow> result" where
  "read_input t s =
     (let s = s\<lparr>columns := header t, df := body t\<rparr> in
      if ''accession'' \<notin> set (header t) then Inl (AttributeError ''accession'', s)
      else if ''peptide_sequence'' \<notin> set (header t)
      then Inl (AttributeError ''peptide_sequence'', s)
      else
        let rows = map (\<lambda>r. r\<lparr>protein_id := accession r, peptide_id := peptide_sequence r\<rparr>)
                     (body t);
            s = s\<lparr>columns := header t @ [''protein_id'', ''peptide_id'', ''protein_peps''],
                  df := rows\<rparr>;
            s = logger DEBUG ''Input file unique proteins: {}''
                  [int (nunique (map protein_id rows))] s;
            s = logger DEBUG ''Input file unique peptides: {}''
                  [int (nunique (map peptide_id rows))] s
        in Inr (s\<lparr>df := map (\<lambda>r. r\<lparr>protein_peps := group_nunique rows r\<rparr>) rows\<rparr>))"

text \<open>
  Lines 95--102. The test reads \<^verbatim>\<open>self.peps_per_prot\<close>, the selection of the rows that stay
  reads \<^verbatim>\<open>args.peps_per_prot\<close>.
\<close>

definition drop_proteins :: "cli_args option \<Rightarrow> needler \<Rightarrow> result" where
  "drop_proteins args s =
     (let bidx = filter (\<lambda>r. int (protein_peps r) < peps_per_prot s) (df s) in
      if length bidx > 0 then
        (let acc_count_removed = nunique (map protein_id bidx) in
         case args of
           None \<Rightarrow> Inl (NameError ''args'', s)
         | Some a \<Rightarrow>
             Inr (logger INFO
                   ''Dropping proteins with insufficient available peptides, proteins removed: {}''
                   [int acc_count_removed]
                   (s\<lparr>df := filter (\<lambda>r. int (protein_peps r) \<ge> args_peps_per_prot a) (df s)\<rparr>)))
      else Inr s)"

text \<open>Lines 104--132: the processing orders, the random identifiers, the size ordering.\<close>

definition default_orders :: "needler \<Rightarrow> needler" where
  "default_orders s =
     s\<lparr>protein_order := sort (remdups (map protein_id (df s))),
       peptide_order := sort (remdups (map peptide_id (df s)))\<rparr>"

definition shuffle_ids :: "env \<Rightarrow> needler \<Rightarrow> needler" where
  "shuffle_ids e s =
     (if shuffle s then
        (let rows = map (\<lambda>r. r\<lparr>protein_id := uuid_protein e (protein_id r)\<rparr>) (df s);
             rows = map (\<lambda>(i, r). r\<lparr>peptide_id := uuid_peptide e i\<rparr>) (enumerate 0 rows);
             s = logger DEBUG ''Shuffling the protein and peptide ids'' [] s;
             rows = permute (sample_order e) rows
         in s\<lparr>df := rows,
              peptide_order := fromkeys (map peptide_id rows),
              protein_order := fromkeys (map protein_id rows)\<rparr>)
      else s)"

definition sort_by_size :: "needler \<Rightarrow> needler" where
  "sort_by_size s =
     (if sort_groups s then
        (let s = logger DEBUG ''Shuffling the peptide ids with protein size-ordering'' [] s;
             rows = sort_key protein_peps (df s)
         in s\<lparr>df := rows, protein_order := fromkeys (map protein_id rows)\<rparr>)
      else s)"

text \<open>
  Lines 134--152: the elution window of every row, \<^verbatim>\<open>rt_start\<close> first, then \<^verbatim>\<open>rt_stop\<close>.
  The rows with a negative start are counted and the count is logged; \<^verbatim>\<open>rt_start\<close> is not
  assigned again. \<open>dt\<close> is the type of the retention time column.
\<close>

definition elution_windows :: "dtype \<Rightarrow> nat \<Rightarrow> needler \<Rightarrow> result" where
  "elution_windows dt initial_rows s =
     (if ''prosit_predicted_rt_seconds'' \<notin> set (columns s)
      then Inl (AttributeError ''prosit_predicted_rt_seconds'', s)
      else
        case shift_error dt (- 1) (map prosit_predicted_rt_seconds (df s)) (rt_width s) of
          Some err \<Rightarrow> Inl (err, s)
        | None \<Rightarrow>
            (let rows = map (\<lambda>r. r\<lparr>rt_start :=
                           shift_cell dt (- 1) (prosit_predicted_rt_seconds r) (rt_width s)\<rparr>)
                         (df s);
                 s = s\<lparr>columns := columns s @ [''rt_start''], df := rows\<rparr>
             in case shift_error dt 1 (map prosit_predicted_rt_seconds rows) (rt_width s) of
                  Some err \<Rightarrow> Inl (err, s)
                | None \<Rightarrow>
                    (let rows = map (\<lambda>r. r\<lparr>rt_stop :=
                                   shift_cell dt 1 (prosit_predicted_rt_seconds r) (rt_width s)\<rparr>)
                                 rows;
                         s = s\<lparr>columns := columns s @ [''rt_stop''], df := rows\<rparr>;
                         bidx = filter (\<lambda>r. rt_start r < 0) rows;
                         s = (if length bidx > 0
                              then logger INFO
                                     ''Adjusting negative peptide rt_start values to 0 for peptides: {}''
                                     [int (length bidx)] s
                              else s)
                     in Inr (if initial_rows \<noteq> length (df s)
                             then logger DEBUG
                                    ''Filtering occured, remaining peptides: {self.df.peptide_id.nunique()}''
                                    []
                                    (logger DEBUG
                                       ''Filtering occured, remaining unique proteins: {self.df.protein_id.nunique()}''
                                       [] s)
                             else s))))"

definition load :: "cli_args option \<Rightarrow> env \<Rightarrow> table \<Rightarrow> needler \<Rightarrow> result" where
  "load args e t s =
     (case read_input t s of
        Inl x \<Rightarrow> Inl x
      | Inr s \<Rightarrow>
          (case drop_proteins args s of
             Inl x \<Rightarrow> Inl x
           | Inr s \<Rightarrow>
               elution_windows (rt_dtype t) (length (body t))
                 (sort_by_size (shuffle_ids e (default_orders s)))))"

subsection \<open>\<^verbatim>\<open>Needler.build_model\<close>\<close>

text \<open>
  \<^verbatim>\<open>[d[k] for k in ks]\<close> on a dictionary: the first key that is absent raises
  \<^verbatim>\<open>KeyError\<close>.
\<close>

definition lookup_all :: "(string \<times> var) list \<Rightarrow> string list \<Rightarrow> py_error + var list" where
  "lookup_all d ks =
     (case filter (\<lambda>k. map_of d k = None) ks of
        [] \<Rightarrow> Inr (map (\<lambda>k. the (map_of d k)) ks)
      | k # _ \<Rightarrow> Inl (KeyError k))"

text \<open>Lines 155--162: a fresh solver; the engine's timeout is in milliseconds.\<close>

definition new_solver :: "needler \<Rightarrow> needler" where
  "new_solver s =
     (let s = s\<lparr>assertions := [], z3_timeout := None\<rparr> in
      if timeout s > 0
      then (logger DEBUG ''Setting z3 solver timeout seconds: {}'' [timeout s] s)
             \<lparr>z3_timeout := Some (timeout s * 1000)\<rparr>
      else s)"

text \<open>
  Lines 164--168: one variable per entry of \<^verbatim>\<open>peptide_order\<close>, named by the peptide id. A
  dictionary keeps one entry per key, at the place of its first insertion.
\<close>

definition create_peptides :: "needler \<Rightarrow> needler" where
  "create_peptides s =
     (logger INFO ''Creating z3 Peptide representations'' [] s)
       \<lparr>peptides := map (\<lambda>pep_id. (pep_id, pep_id)) (fromkeys (peptide_order s))\<rparr>"

text \<open>
  Lines 170--186: the bound on the number of true peptide variables. \<^verbatim>\<open>//\<close> is floor
  division, as \<open>div\<close> on \<open>int\<close> is; \<open>1 + 2 * rt_width\<close> is odd, so never zero.
  On an empty frame \<^verbatim>\<open>max()\<close> and \<^verbatim>\<open>min()\<close> are NaN and the call of \<^verbatim>\<open>z3.AtMost\<close> raises:
  with no variable at all the binding's assertion fails, otherwise the conversion of NaN
  to the bound does.
\<close>

definition max_targetable :: "needler \<Rightarrow> int" where
  "max_targetable s =
     (let PEPTIDE_ALLOWED_OFFSET = 500;
          pep_elution_width = 1 + (2 * rt_width s);
          gradient_length_seconds = col_max (map rt_stop (df s)) - col_min (map rt_start (df s));
          blocks = (gradient_length_seconds div pep_elution_width) + 1;
          max_targetable_blocks = blocks * targets_per_cycle s;
          max_target_from_prots = int (length (protein_order s)) * peps_per_prot s
      in min max_targetable_blocks max_target_from_prots + PEPTIDE_ALLOWED_OFFSET)"

definition global_hint :: "needler \<Rightarrow> result" where
  "global_hint s =
     (case lookup_all (peptides s) (peptide_order s) of
        Inl err \<Rightarrow> Inl (err, s)
      | Inr pep_bools \<Rightarrow>
          if pep_bools = [] then Inl (Z3Exception ''Non empty list of arguments expected'', s)
          else if df s = [] then Inl (ArgumentError ''argument 4'', s)
          else
            Inr ((logger DEBUG ''Modeling max targetable peptides (including offset) as: {}''
                    [max_targetable s] s)
                 \<lparr>assertions := assertions s @ [Assert (AtMost pep_bools (max_targetable s))]\<rparr>))"

text \<open>
  Lines 190--207, the body of the loop over \<^verbatim>\<open>protein_order\<close>. The peptide ids of the
  protein are collected in a \<^verbatim>\<open>set\<close>: each id once, in an order the language does not fix
  (here the order of \<open>remdups\<close>). The shuffle reads \<^verbatim>\<open>args.shuffle\<close>.
\<close>

definition protein_step :: "cli_args option \<Rightarrow> env \<Rightarrow> string \<Rightarrow> needler \<Rightarrow> result" where
  "protein_step args e prot_id s =
     (let protein_peptide_ids =
            remdups (map peptide_id (filter (\<lambda>r. protein_id r = prot_id) (df s)))
      in case lookup_all (peptides s) protein_peptide_ids of
           Inl err \<Rightarrow> Inl (err, s)
         | Inr vs \<Rightarrow>
             (let pseudo_bools = map (\<lambda>v. (v, 1)) vs in
              case args of
                None \<Rightarrow> Inl (NameError ''args'', s)
              | Some a \<Rightarrow>
                  (let pseudo_bools =
                         (if args_shuffle a then permute (shuffle_protein e prot_id) pseudo_bools
                          else pseudo_bools)
                   in Inr (s\<lparr>assertions := assertions s @
                                [Assert (Or (PbEq pseudo_bools 0)
                                            (PbEq pseudo_bools (peps_per_prot s)))],
                              proteins_targeted := proteins_targeted s @
                                [If (PbEq pseudo_bools (peps_per_prot s)) 1 0]\<rparr>))))"

fun assign_proteins :: "cli_args option \<Rightarrow> env \<Rightarrow> string list \<Rightarrow> needler \<Rightarrow> result" where
  "assign_proteins args e [] s = Inr s"
| "assign_proteins args e (prot_id # rest) s =
     (case protein_step args e prot_id s of
        Inl x \<Rightarrow> Inl x
      | Inr s \<Rightarrow> assign_proteins args e rest s)"

text \<open>Lines 209--212: the first lower bound on the number of targeted proteins.\<close>

definition initial_target :: "needler \<Rightarrow> needler" where
  "initial_target s =
     (let protein_target = 0;
          s = logger INFO ''Setting intial protein target > {}'' [protein_target] s
      in s\<lparr>assertions := assertions s @ [SumGt (proteins_targeted s) protein_target]\<rparr>)"

text \<open>
  Lines 218--233: the seconds to model and, for each, the capacity constraint over the
  peptides whose window holds it. The order of the seconds reads \<^verbatim>\<open>self.shuffle\<close>, the
  order inside a slot reads \<^verbatim>\<open>args.shuffle\<close>.
\<close>

definition time_steps :: "env \<Rightarrow> needler \<Rightarrow> int list" where
  "time_steps e s =
     (let rt_minimum = max (col_min (map rt_start (df s))) 0;
          rt_maximum = col_max (map rt_stop (df s));
          steps = [rt_minimum..rt_maximum]
      in if shuffle s then permute (shuffle_steps e) steps else steps)"

definition slot_step :: "cli_args option \<Rightarrow> env \<Rightarrow> int \<Rightarrow> needler \<Rightarrow> result" where
  "slot_step args e i s =
     (let bidx = filter (\<lambda>r. rt_start r \<le> i \<and> rt_stop r \<ge> i) (df s) in
      if length bidx > 0 then
        (let pep_ids = remdups (map peptide_id bidx) in
         case lookup_all (peptides s) pep_ids of
           Inl err \<Rightarrow> Inl (err, s)
         | Inr time_slot_peptides \<Rightarrow>
             (case args of
                None \<Rightarrow> Inl (NameError ''args'', s)
              | Some a \<Rightarrow>
                  (let time_slot_peptides =
                         (if args_shuffle a then permute (shuffle_slot e i) time_slot_peptides
                          else time_slot_peptides)
                   in Inr (s\<lparr>assertions := assertions s @
                                [Assert (AtMost time_slot_peptides (targets_per_cycle s))]\<rparr>))))
      else Inr s)"

fun assign_slots :: "cli_args option \<Rightarrow> env \<Rightarrow> int list \<Rightarrow> needler \<Rightarrow> result" where
  "assign_slots args e [] s = Inr s"
| "assign_slots args e (i # rest) s =
     (case slot_step args e i s of
        Inl x \<Rightarrow> Inl x
      | Inr s \<Rightarrow> assign_slots args e rest s)"

definition build_model :: "cli_args option \<Rightarrow> env \<Rightarrow> needler \<Rightarrow> result" where
  "build_model args e s =
     (case global_hint (create_peptides (new_solver s)) of
        Inl x \<Rightarrow> Inl x
      | Inr s \<Rightarrow>
          (let s = logger INFO ''Assigning the protein-peptide relationship'' [] s;
               s = s\<lparr>proteins_targeted := []\<rparr>
           in case assign_proteins args e (protein_order s) s of
                Inl x \<Rightarrow> Inl x
              | Inr s \<Rightarrow>
                  (let s = initial_target s;
                       s = logger INFO ''Assigning gradient constraints'' [] s;
                       steps = time_steps e s;
                       s = logger DEBUG ''Time steps to model: {}'' [int (length steps)] s
                   in assign_slots args e steps s)))"

subsection \<open>\<^verbatim>\<open>Needler.save\<close>\<close>

text \<open>
  \<^verbatim>\<open>os.path.dirname\<close>: the path up to its last slash, without trailing slashes unless it
  consists of slashes only.
\<close>

definition dirname :: "string \<Rightarrow> string" where
  "dirname p =
     (let head = rev (dropWhile (\<lambda>c. c \<noteq> CHR ''/'') (rev p)) in
      if head \<noteq> [] \<and> filter (\<lambda>c. c \<noteq> CHR ''/'') head \<noteq> []
      then rev (dropWhile (\<lambda>c. c = CHR ''/'') (rev head))
      else head)"

definition output_columns :: "string list" where
  "output_columns =
     [''accession'', ''isoform'', ''name'', ''gene'', ''peptide_sequence'', ''peptide'',
      ''prosit_predicted_rt_seconds'', ''rt_start'', ''rt_stop'']"

definition project :: "row \<Rightarrow> string \<times> string \<times> rat \<times> int \<times> int" where
  "project r =
     (accession r, peptide_sequence r, prosit_predicted_rt_seconds r, rt_start r, rt_stop r)"

text \<open>
  The result is written under a temporary name and moved over the destination.
  \<^verbatim>\<open>os.makedirs('')\<close> raises \<^verbatim>\<open>FileNotFoundError\<close> (a destination without a directory
  part); selecting a column that the frame lacks raises \<^verbatim>\<open>KeyError\<close>. Only directories
  are looked up by \<^verbatim>\<open>os.path.exists\<close> here.
\<close>

definition save :: "needler \<Rightarrow> result" where
  "save s =
     (let temp_name = dst s @ ''.temp'';
          parent_dir = dirname temp_name
      in if parent_dir \<notin> set (dirs s) \<and> parent_dir = []
         then Inl (FileNotFoundError parent_dir, s)
         else
           (let s = (if parent_dir \<notin> set (dirs s) then s\<lparr>dirs := parent_dir # dirs s\<rparr> else s);
                bidx = filter (\<lambda>r. peptide_in_model r \<and> protein_is_targeted r) (df s)
            in case filter (\<lambda>c. c \<notin> set (columns s)) output_columns of
                 c # _ \<Rightarrow> Inl (KeyError c, s)
               | [] \<Rightarrow>
                   (let s = s\<lparr>files := (temp_name, map project bidx) # files s\<rparr>
                    in Inr (s\<lparr>files := (dst s, the (map_of (files s) temp_name)) #
                                 filter (\<lambda>f. fst f \<noteq> temp_name) (files s)\<rparr>))))"

subsection \<open>\<^verbatim>\<open>Needler.optimize\<close>\<close>

text \<open>
  Lines 282--299: from the model of a satisfiable check, the peptides used, the proteins
  with exactly \<^verbatim>\<open>peps_per_prot\<close> distinct used peptides, and the two annotation columns.
  The result is the annotated state, \<^verbatim>\<open>protein_target\<close> and \<^verbatim>\<open>len(used_pep_ids)\<close>.
\<close>

definition used_peptides :: "var list \<Rightarrow> needler \<Rightarrow> string list" where
  "used_peptides m s = map fst (filter (\<lambda>(peptide_id, pep_bool). pep_bool \<in> set m) (peptides s))"

definition annotate_used :: "var list \<Rightarrow> needler \<Rightarrow> needler" where
  "annotate_used m s =
     s\<lparr>df := map (\<lambda>r. r\<lparr>peptide_in_model := peptide_id r \<in> set (used_peptides m s)\<rparr>) (df s)\<rparr>"

definition protein_targets :: "needler \<Rightarrow> string list" where
  "protein_targets s =
     (let used = filter peptide_in_model (df s) in
      filter (\<lambda>p. int (nunique (map peptide_id (filter (\<lambda>r. protein_id r = p) used)))
                    = peps_per_prot s)
        (remdups (map protein_id used)))"

definition annotate_targeted :: "needler \<Rightarrow> needler" where
  "annotate_targeted s =
     s\<lparr>df := map (\<lambda>r. r\<lparr>protein_is_targeted := protein_id r \<in> set (protein_targets s)\<rparr>) (df s)\<rparr>"

text \<open>
  One pass through the body of \<^verbatim>\<open>while True\<close> (lines 266--329): either the loop goes on
  with a new \<^verbatim>\<open>best_ever_result\<close>, or it ends by \<^verbatim>\<open>break\<close> or by an exception.
  \<^verbatim>\<open>remainder_seconds\<close> is a local variable that is assigned only when
  \<^verbatim>\<open>self.timeout > 0\<close>; \<open>None\<close> is the unbound variable, and reading it raises
  \<^verbatim>\<open>UnboundLocalError\<close>.
\<close>

datatype loop = Again nat "rat option" needler | Stop result

definition reset_budget :: "env \<Rightarrow> nat \<Rightarrow> rat option \<Rightarrow> needler \<Rightarrow> rat option \<times> needler" where
  "reset_budget e i remainder_seconds s =
     (if timeout s > 0 then
        (let remainder_seconds = of_int (timeout s) - elapsed e i in
         (Some remainder_seconds,
          s\<lparr>z3_timeout := Some (if remainder_seconds < 0 then 1
                                 else toward_zero remainder_seconds * 1000)\<rparr>))
      else (remainder_seconds, s))"

definition on_sat :: "nat \<Rightarrow> rat option \<Rightarrow> var list \<Rightarrow> needler \<Rightarrow> loop" where
  "on_sat best_ever_result remainder_seconds m s =
     (let used_pep_ids = remdups (used_peptides m s);
          s = annotate_used m s;
          protein_target = length (protein_targets s);
          s = annotate_targeted s;
          s = logger DEBUG ''Created model targeting proteins: {} peptides: {}''
                [int protein_target, int (length used_pep_ids)] s
      in if protein_target > best_ever_result then
           (case save (s\<lparr>trace := trace s @ [(protein_target, best_ever_result, True)]\<rparr>) of
              Inl x \<Rightarrow> Stop (Inl x)
            | Inr s \<Rightarrow>
                (let s = s\<lparr>assertions := assertions s @
                             [SumGt (proteins_targeted s) (int protein_target)]\<rparr>
                 in if protein_target = nunique (map protein_id (df s))
                    then Stop (Inr (logger INFO ''SOLVED! Model targets all provided proteins'' [] s))
                    else Again protein_target remainder_seconds s))
         else
           Stop (Inr (logger WARNING ''Z3 loop detected, best seen was: {}''
                        [int best_ever_result]
                        (s\<lparr>trace := trace s @ [(protein_target, best_ever_result, False)]\<rparr>))))"

definition optimize_body :: "env \<Rightarrow> nat \<Rightarrow> rat option \<Rightarrow> needler \<Rightarrow> loop" where
  "optimize_body e best_ever_result remainder_seconds s =
     (let result = check e (checks s) (assertions s);
          (remainder_seconds, s) =
             reset_budget e (checks s) remainder_seconds (s\<lparr>checks := Suc (checks s)\<rparr>)
      in case result of
           sat m \<Rightarrow> on_sat best_ever_result remainder_seconds m s
         | unsat \<Rightarrow>
             Stop (Inr (logger INFO
                          ''Impossible to generate a satisfactory model. Relax the constraints.''
                          [] s))
         | unknown \<Rightarrow>
             (case remainder_seconds of
                None \<Rightarrow> Stop (Inl (UnboundLocalError ''remainder_seconds'', s))
              | Some r \<Rightarrow>
                  Stop (Inr (if r < 0 then logger ERROR ''Model timeout reached'' [] s
                             else logger ERROR ''Model generation was halted, status unknown''
                                    [] s))))"

text \<open>
  The loop leaves the protein ids of the frame as they are, and every pass that goes
  on has raised \<^verbatim>\<open>best_ever_result\<close> and stays below the number of proteins: the
  facts the termination of the loop rests on.
\<close>

lemma df_logger [simp]: "df (logger l msg ns s) = df s"
  by (simp add: logger_def)

lemma protein_ids_annotate_used [simp]:
  "map protein_id (df (annotate_used m s)) = map protein_id (df s)"
  by (simp add: annotate_used_def)

lemma protein_ids_annotate_targeted [simp]:
  "map protein_id (df (annotate_targeted s)) = map protein_id (df s)"
  by (simp add: annotate_targeted_def)

lemma df_save: "save s = Inr s' \<Longrightarrow> df s' = df s"
  by (auto simp: save_def Let_def split: if_splits list.splits)

lemma df_reset_budget: "reset_budget e i r s = (r', s') \<Longrightarrow> df s' = df s"
  by (auto simp: reset_budget_def Let_def split: if_splits)

lemma nunique_filter_le: "nunique (map f (filter P xs)) \<le> nunique (map f xs)"
proof -
  have "card (set (map f (filter P xs))) \<le> card (set (map f xs))"
    by (rule card_mono) auto
  then show ?thesis by (simp add: nunique_def length_remdups_card_conv)
qed

lemma protein_targets_le: "length (protein_targets s) \<le> nunique (map protein_id (df s))"
proof -
  have "length (protein_targets s) \<le> nunique (map protein_id (filter peptide_in_model (df s)))"
    by (simp add: protein_targets_def Let_def nunique_def)
  also have "\<dots> \<le> nunique (map protein_id (df s))" by (rule nunique_filter_le)
  finally show ?thesis .
qed

lemma on_sat_Again:
  assumes "on_sat b r m s = Again b' r' s'"
  shows "map protein_id (df s') = map protein_id (df s) \<and> b < b'
         \<and> b' < nunique (map protein_id (df s))"
proof -
  let ?s1 = "annotate_used m s"
  have le: "length (protein_targets ?s1) \<le> nunique (map protein_id (df s))"
    using protein_targets_le [of ?s1] by simp
  from assms show ?thesis using le
    by (auto simp: on_sat_def Let_def split: if_splits sum.splits dest!: df_save)
qed

lemma optimize_body_Again:
  assumes "optimize_body e b r s = Again b' r' s'"
  shows "map protein_id (df s') = map protein_id (df s) \<and> b < b'
         \<and> b' < nunique (map protein_id (df s))"
  using assms
  by (auto simp: optimize_body_def Let_def split: prod.splits z3_result.splits option.splits
        dest!: on_sat_Again df_reset_budget)

function optimize_loop :: "env \<Rightarrow> nat \<Rightarrow> rat option \<Rightarrow> needler \<Rightarrow> result" where
  "optimize_loop e best_ever_result remainder_seconds s =
     (case optimize_body e best_ever_result remainder_seconds s of
        Stop x \<Rightarrow> x
      | Again best_ever_result remainder_seconds s \<Rightarrow>
          optimize_loop e best_ever_result remainder_seconds s)"
  by pat_completeness auto

termination
proof (relation "measure (\<lambda>(e, best, r, s). nunique (map protein_id (df s)) - best)")
  show "wf (measure (\<lambda>(e, best, r, s). nunique (map protein_id (df s)) - best))" by simp
next
  fix e best r s best' r' s'
  assume "optimize_body e best r s = Again best' r' s'"
  from optimize_body_Again [OF this]
  show "((e, best', r', s'), (e, best, r, s))
          \<in> measure (\<lambda>(e, best, r, s). nunique (map protein_id (df s)) - best)"
    by (auto intro: diff_less_mono2)
qed

declare optimize_loop.simps [simp del]

text \<open>Lines 258--264: the loop starts with \<^verbatim>\<open>best_ever_result = 0\<close>.\<close>

definition optimize :: "env \<Rightarrow> needler \<Rightarrow> result" where
  "optimize e s = optimize_loop e 0 None (logger INFO ''Begin model evaluation'' [] s)"

subsection \<open>\<^verbatim>\<open>Needler.__init__\<close> and \<^verbatim>\<open>main\<close>\<close>

text \<open>
  The constructor stores its parameters; the other attributes do not exist yet and every
  one is assigned before it is read. The content of the file at \<^verbatim>\<open>db_src\<close> is the table
  given to \<open>load\<close>; \<open>ds\<close> are the directories that exist when the program starts.
\<close>

definition Needler ::
  "string \<Rightarrow> int \<Rightarrow> int \<Rightarrow> int \<Rightarrow> int \<Rightarrow> bool \<Rightarrow> bool \<Rightarrow> string list \<Rightarrow> needler" where
  "Needler dst' rt_width' targets_per_cycle' timeout' peps_per_prot' shuffle' sort_groups' ds =
     \<lparr>dst = dst', rt_width = rt_width', targets_per_cycle = targets_per_cycle',
      peps_per_prot = peps_per_prot', timeout = timeout', shuffle = shuffle',
      sort_groups = sort_groups', columns = [], df = [], protein_order = [],
      peptide_order = [], peptides = [], proteins_targeted = [], z3_timeout = None,
      assertions = [], checks = 0, log = [], dirs = ds, files = [], trace = []\<rparr>"

definition main :: "cli_args option \<Rightarrow> env \<Rightarrow> table \<Rightarrow> needler \<Rightarrow> result" where
  "main args e t needle =
     (case load args e t needle of
        Inl x \<Rightarrow> Inl x
      | Inr needle \<Rightarrow>
          (case build_model args e needle of
             Inl x \<Rightarrow> Inl x
           | Inr needle \<Rightarrow> optimize e needle))"

subsection \<open>What a solution selects\<close>

text \<open>
  A solution assigns a truth value to every variable; the variable of a peptide id is the
  one named by it. \<open>selected_of_protein m s p\<close> is the number of peptides of protein \<open>p\<close>
  that \<open>m\<close> selects, \<open>selected_at m s t\<close> the number of selected peptides whose window
  \<open>[rt_start, rt_stop]\<close> holds the second \<open>t\<close>.
\<close>

definition selected_of_protein :: "(var \<Rightarrow> bool) \<Rightarrow> needler \<Rightarrow> string \<Rightarrow> nat" where
  "selected_of_protein m s p =
     card {peptide_id r | r. r \<in> set (df s) \<and> protein_id r = p \<and> m (peptide_id r)}"

definition selected_at :: "(var \<Rightarrow> bool) \<Rightarrow> needler \<Rightarrow> int \<Rightarrow> nat" where
  "selected_at m s t =
     card {peptide_id r | r. r \<in> set (df s) \<and> rt_start r \<le> t \<and> t \<le> rt_stop r \<and> m (peptide_id r)}"

text \<open>
  What a run persists. \<open>written s\<close> are the files written at the destination so far, the
  oldest first. For the model \<open>m\<close> of a satisfiable check, \<open>target_of s m\<close> is the
  \<^verbatim>\<open>protein_target\<close> that \<^verbatim>\<open>optimize\<close> computes from it (lines 282--299) and \<open>artifact_of s m\<close>
  the content \<^verbatim>\<open>save\<close> projects from the frame annotated with it (lines 242--254). Both
  read the frame apart from its two annotation columns, which every pass overwrites:
  \<open>frame_eq\<close> relates two states that agree on what they read.
\<close>

definition written :: "needler \<Rightarrow> artifact list" where
  "written s = rev (map snd (filter (\<lambda>f. fst f = dst s) (files s)))"

definition target_of :: "needler \<Rightarrow> var list \<Rightarrow> nat" where
  "target_of s m = length (protein_targets (annotate_used m s))"

definition artifact_of :: "needler \<Rightarrow> var list \<Rightarrow> artifact" where
  "artifact_of s m =
     map project (filter (\<lambda>r. peptide_in_model r \<and> protein_is_targeted r)
                    (df (annotate_targeted (annotate_used m s))))"

definition unmarked :: "row \<Rightarrow> row" where
  "unmarked r = r\<lparr>peptide_in_model := False, protein_is_targeted := False\<rparr>"

definition frame_eq :: "needler \<Rightarrow> needler \<Rightarrow> bool" where
  "frame_eq s s' =
     (map unmarked (df s) = map unmarked (df s') \<and> peptides s = peptides s'
      \<and> peps_per_prot s = peps_per_prot s' \<and> dst s = dst s')"

text \<open>The bounds of the constraints \<^verbatim>\<open>Sum(proteins_targeted) > k\<close>, in the order asserted.\<close>

fun ratchet_bound :: "constraint \<Rightarrow> int list" where
  "ratchet_bound (SumGt ts k) = [k]"
| "ratchet_bound (Assert b) = []"

definition ratchet_bounds :: "constraint list \<Rightarrow> int list" where
  "ratchet_bounds cs = concat (map ratchet_bound cs)"

text \<open>
  The \<^verbatim>\<open>protein_target\<close> values of the iterations of a trace in which \<^verbatim>\<open>self.save()\<close>
  was called.
\<close>

definition persisted :: "(nat \<times> nat \<times> bool) list \<Rightarrow> nat list" where
  "persisted tr = map fst (filter (\<lambda>(protein_target, best_ever_result, saved). saved) tr)"

text \<open>The state a run ends in, whether it returns or raises.\<close>

definition final :: "result \<Rightarrow> needler" where
  "final x = (case x of Inl (err, s) \<Rightarrow> s | Inr s \<Rightarrow> s)"

subsection \<open>Example inputs\<close>

text \<open>
  A row of the input file (the other columns are assigned by \<^verbatim>\<open>load\<close>), a header with
  every column the program reads, and an environment: the engine finds the model
  \<open>{p1, p2}\<close> on the first check and reports unsatisfiable afterwards.
\<close>

definition file_row :: "string \<Rightarrow> string \<Rightarrow> rat \<Rightarrow> row" where
  "file_row acc pep t =
     \<lparr>accession = acc, peptide_sequence = pep, prosit_predicted_rt_seconds = t,
      protein_id = [], peptide_id = [], protein_peps = 0, rt_start = 0, rt_stop = 0,
      peptide_in_model = False, protein_is_targeted = False\<rparr>"

definition full_header :: "string list" where
  "full_header =
     [''accession'', ''isoform'', ''name'', ''gene'', ''peptide_sequence'', ''peptide'',
      ''prosit_predicted_rt_seconds'']"

definition ex_env :: env where
  "ex_env =
     \<lparr>check = (\<lambda>i cs. if i = 0 then sat [''p1'', ''p2''] else unsat),
      elapsed = (\<lambda>i. of_nat i),
      uuid_protein = (\<lambda>p. ''u-'' @ p),
      uuid_peptide = (\<lambda>i. replicate (Suc i) CHR ''x''),
      sample_order = [1, 0, 2, 3],
      shuffle_protein = (\<lambda>p. [1, 0]),
      shuffle_steps = [],
      shuffle_slot = (\<lambda>i. [1, 0])\<rparr>"

definition halted_env :: env where
  "halted_env = ex_env\<lparr>check := (\<lambda>i cs. unknown)\<rparr>"

definition ex_args :: "cli_args option" where
  "ex_args = Some \<lparr>args_shuffle = False, args_peps_per_prot = 2\<rparr>"

definition ex_model :: "var \<Rightarrow> bool" where
  "ex_model v = (v \<in> set [''p1'', ''p2''])"

text \<open>
  Three proteins; \<open>C\<close> has one peptide and is dropped. Width 1, one target per cycle, two
  peptides per protein, no timeout, no shuffling.
\<close>

definition ex_table :: table where
  "ex_table =
     \<lparr>header = full_header, rt_dtype = int64,
      body = [file_row ''B'' ''p3'' 2, file_row ''A'' ''p1'' 1, file_row ''A'' ''p2'' 5,
              file_row ''B'' ''p4'' 9, file_row ''C'' ''p5'' 3]\<rparr>"

definition ex_needler :: needler where
  "ex_needler = Needler ''out/r.csv'' 1 1 (- 1) 2 False False []"

definition ex_loaded :: needler where
  "ex_loaded = projr (load ex_args ex_env ex_table ex_needler)"

definition ex_built :: needler where
  "ex_built = projr (build_model ex_args ex_env ex_loaded)"

text \<open>
  A protein with a peptide predicted at second 3, in a file of integer times (as
  \<^verbatim>\<open>predict_rt.py\<close> writes them); width 5.
\<close>

definition near_table :: table where
  "near_table =
     \<lparr>header = full_header, rt_dtype = int64,
      body = [file_row ''A'' ''p1'' 3, file_row ''A'' ''p2'' 30]\<rparr>"

definition wide_needler :: needler where
  "wide_needler = Needler ''out/r.csv'' 5 1 (- 1) 2 False False []"

definition near_loaded :: needler where
  "near_loaded = projr (load ex_args ex_env near_table wide_needler)"

text \<open>A file without the retention time column, and a file whose only protein has one peptide.\<close>

definition untimed_table :: table where
  "untimed_table =
     \<lparr>header = [''accession'', ''isoform'', ''name'', ''gene'', ''peptide_sequence'', ''peptide''],
      rt_dtype = int64,
      body = [file_row ''A'' ''p1'' 0, file_row ''A'' ''p2'' 0]\<rparr>"

definition lone_table :: table where
  "lone_table = \<lparr>header = full_header, rt_dtype = int64, body = [file_row ''C'' ''p5'' 3]\<rparr>"

definition lone_loaded :: needler where
  "lone_loaded = projr (load ex_args ex_env lone_table ex_needler)"

text \<open>
  Two proteins that share the peptide sequence \<open>p1\<close>, loaded with shuffling on (as the
  batch jobs run the program, \<^verbatim>\<open>--shuffle\<close>).
\<close>

definition shared_table :: table where
  "shared_table =
     \<lparr>header = full_header, rt_dtype = int64,
      body = [file_row ''A'' ''p1'' 1, file_row ''A'' ''p2'' 5,
              file_row ''B'' ''p1'' 1, file_row ''B'' ''p3'' 9]\<rparr>"

definition shuffle_args :: "cli_args option" where
  "shuffle_args = Some \<lparr>args_shuffle = True, args_peps_per_prot = 2\<rparr>"

definition shuffle_needler :: needler where
  "shuffle_needler = Needler ''out/r.csv'' 1 1 (- 1) 2 True False []"

definition shared_shuffled :: needler where
  "shared_shuffled =
     projr (build_model shuffle_args ex_env
              (projr (load shuffle_args ex_env shared_table shuffle_needler)))"

definition shared_loaded :: needler where
  "shared_loaded = projr (load ex_args ex_env shared_table ex_needler)"

definition shared_built :: needler where
  "shared_built = projr (build_model ex_args ex_env shared_loaded)"

text \<open>
  An instance whose \<^verbatim>\<open>peps_per_prot\<close> (3) and \<^verbatim>\<open>shuffle\<close> (off) differ from the command
  line's (\<open>shuffle_args\<close>: 2, on).
\<close>

definition mismatched :: needler where
  "mismatched = ex_built\<lparr>peps_per_prot := 3\<rparr>"

text \<open>The instance of the first example with \<^verbatim>\<open>peps_per_prot = 1\<close>.\<close>

definition lenient_needler :: needler where
  "lenient_needler = Needler ''out/r.csv'' 1 1 (- 1) 1 False False []"

text \<open>One protein whose two peptides elute before second 0 (predicted times of -10 s).\<close>

definition early_table :: table where
  "early_table =
     \<lparr>header = full_header, rt_dtype = int64,
      body = [file_row ''A'' ''p1'' (- 10), file_row ''A'' ''p2'' (- 10)]\<rparr>"

definition early_needler :: needler where
  "early_needler = Needler ''out/r.csv'' 2 1 (- 1) 2 False False []"

definition early_built :: needler where
  "early_built =
     projr (build_model ex_args ex_env (projr (load ex_args ex_env early_table early_needler)))"

section \<open>Properties\<close>

subsection \<open>Logging, reordering, dictionaries\<close>

lemma logger_fields [simp]:
  "peptides (logger l msg ns s) = peptides s"
  "peps_per_prot (logger l msg ns s) = peps_per_prot s"
  "targets_per_cycle (logger l msg ns s) = targets_per_cycle s"
  "rt_width (logger l msg ns s) = rt_width s"
  "protein_order (logger l msg ns s) = protein_order s"
  "peptide_order (logger l msg ns s) = peptide_order s"
  "assertions (logger l msg ns s) = assertions s"
  "proteins_targeted (logger l msg ns s) = proteins_targeted s"
  "shuffle (logger l msg ns s) = shuffle s"
  "timeout (logger l msg ns s) = timeout s"
  "files (logger l msg ns s) = files s"
  "trace (logger l msg ns s) = trace s"
  "checks (logger l msg ns s) = checks s"
  "columns (logger l msg ns s) = columns s"
  "dirs (logger l msg ns s) = dirs s"
  "dst (logger l msg ns s) = dst s"
  by (simp_all add: logger_def)

lemma sort_upt_mset: "sort p = [0..<n] \<Longrightarrow> mset p = mset [0..<n]"
  by (metis mset_sort)

lemma mset_permute [simp]: "mset (permute p xs) = mset xs"
proof (cases "sort p = [0..<length xs]")
  case True
  then have "mset p = mset [0..<length xs]" by (rule sort_upt_mset)
  then have "mset (map (\<lambda>i. xs ! i) p) = mset (map (\<lambda>i. xs ! i) [0..<length xs])"
    by (metis mset_map)
  then show ?thesis using True by (simp add: permute_def map_nth)
next
  case False
  then show ?thesis by (simp add: permute_def)
qed

lemma set_permute [simp]: "set (permute p xs) = set xs"
  by (metis mset_permute set_mset_mset)

lemma length_permute [simp]: "length (permute p xs) = length xs"
  by (metis mset_permute size_mset)

lemma mset_eq_length_filter: "mset xs = mset ys \<Longrightarrow> length (filter P xs) = length (filter P ys)"
  by (metis mset_filter size_mset)

lemma mset_eq_sum_list: "mset xs = mset ys \<Longrightarrow> sum_list (map f xs) = sum_list (map (f :: 'a \<Rightarrow> int) ys)"
  by (metis mset_map sum_mset_sum_list)

lemma set_fromkeys [simp]: "set (fromkeys xs) = set xs"
  by (simp add: fromkeys_def)

lemma distinct_fromkeys [simp]: "distinct (fromkeys xs)"
  by (simp add: fromkeys_def)

lemma map_of_self: "map_of (map (\<lambda>k. (k, k)) ks) k = (if k \<in> set ks then Some k else None)"
  by (induction ks) auto

lemma lookup_all_Inr:
  assumes "lookup_all d ks = Inr vs"
  shows "vs = map (\<lambda>k. the (map_of d k)) ks \<and> (\<forall>k\<in>set ks. map_of d k \<noteq> None)"
proof -
  from assms have "filter (\<lambda>k. map_of d k = None) ks = []"
    by (auto simp: lookup_all_def split: list.splits)
  then have "\<forall>k\<in>set ks. map_of d k \<noteq> None"
    by (simp add: filter_empty_conv)
  with assms show ?thesis by (auto simp: lookup_all_def split: list.splits)
qed

lemma lookup_all_self:
  assumes "lookup_all (map (\<lambda>k. (k, k)) keys) ks = Inr vs"
  shows "vs = ks"
proof -
  from lookup_all_Inr [OF assms]
  have vs: "vs = map (\<lambda>k. the (map_of (map (\<lambda>k. (k, k)) keys) k)) ks"
    and ok: "\<forall>k\<in>set ks. map_of (map (\<lambda>k. (k, k)) keys) k \<noteq> None" by auto
  from ok have "\<forall>k\<in>set ks. k \<in> set keys" by (auto simp: map_of_self split: if_splits)
  then have "map (\<lambda>k. the (map_of (map (\<lambda>k. (k, k)) keys) k)) ks = ks"
    by (induction ks) (auto simp: map_of_self)
  with vs show ?thesis by simp
qed

lemma pbeq_count:
  "(\<Sum>p\<leftarrow>map (\<lambda>v. (v, 1)) vs. if m (fst p) then snd p else 0) = int (length (filter m vs))"
  by (induction vs) auto

subsection \<open>The constraints that \<^verbatim>\<open>build_model\<close> asserts\<close>

text \<open>
  \<open>covering rows t\<close> are the rows whose window holds the second \<open>t\<close>. \<open>balance_of\<close> and
  \<open>capacity_of\<close> describe the constraint of a protein and of a second up to the order of
  its variables.
\<close>

definition covering :: "row list \<Rightarrow> int \<Rightarrow> row list" where
  "covering rows t = filter (\<lambda>r. rt_start r \<le> t \<and> rt_stop r \<ge> t) rows"

definition balance_of :: "row list \<Rightarrow> int \<Rightarrow> string \<Rightarrow> constraint \<Rightarrow> bool" where
  "balance_of rows k p c =
     (\<exists>pbs. c = Assert (Or (PbEq pbs 0) (PbEq pbs k))
        \<and> mset pbs = mset (map (\<lambda>v. (v, 1))
             (remdups (map peptide_id (filter (\<lambda>r. protein_id r = p) rows)))))"

definition capacity_of :: "row list \<Rightarrow> int \<Rightarrow> int \<Rightarrow> constraint list \<Rightarrow> bool" where
  "capacity_of rows k t cs =
     (if covering rows t = [] then cs = []
      else \<exists>vs. cs = [Assert (AtMost vs k)]
             \<and> mset vs = mset (remdups (map peptide_id (covering rows t))))"

lemma protein_step_Inr:
  assumes "protein_step args e p s = Inr s'" and "peptides s = map (\<lambda>k. (k, k)) keys"
  shows "\<exists>c t. s' = s\<lparr>assertions := assertions s @ [c],
                       proteins_targeted := proteins_targeted s @ [t]\<rparr>
           \<and> balance_of (df s) (peps_per_prot s) p c"
proof -
  let ?ids = "remdups (map peptide_id (filter (\<lambda>r. protein_id r = p) (df s)))"
  from assms(1) obtain vs a where vs: "lookup_all (peptides s) ?ids = Inr vs"
    and a: "args = Some a"
    by (auto simp: protein_step_def Let_def split: sum.splits option.splits)
  from vs assms(2) have vs_ids: "vs = ?ids" by (auto dest: lookup_all_self)
  let ?pbs = "if args_shuffle a then permute (shuffle_protein e p) (map (\<lambda>v. (v, 1::int)) vs)
              else map (\<lambda>v. (v, 1)) vs"
  from assms(1) vs a
  have "s' = s\<lparr>assertions := assertions s @
                   [Assert (Or (PbEq ?pbs 0) (PbEq ?pbs (peps_per_prot s)))],
                proteins_targeted := proteins_targeted s @
                   [If (PbEq ?pbs (peps_per_prot s)) 1 0]\<rparr>"
    by (simp add: protein_step_def Let_def)
  moreover have "mset ?pbs = mset (map (\<lambda>v. (v, 1)) ?ids)" using vs_ids by simp
  ultimately show ?thesis unfolding balance_of_def by blast
qed

lemma assign_proteins_Inr:
  assumes "assign_proteins args e ps s = Inr s'" and "peptides s = map (\<lambda>k. (k, k)) keys"
  shows "\<exists>cs ts. s' = s\<lparr>assertions := assertions s @ cs,
                         proteins_targeted := proteins_targeted s @ ts\<rparr>
           \<and> list_all2 (balance_of (df s) (peps_per_prot s)) ps cs"
  using assms
proof (induction ps arbitrary: s)
  case Nil
  then have "s' = s\<lparr>assertions := assertions s @ [], proteins_targeted := proteins_targeted s @ []\<rparr>"
    by simp
  then show ?case by (metis list_all2_Nil)
next
  case (Cons p ps)
  from Cons.prems(1) obtain s1 where s1: "protein_step args e p s = Inr s1"
    and rest: "assign_proteins args e ps s1 = Inr s'"
    by (auto split: sum.splits)
  from protein_step_Inr [OF s1 Cons.prems(2)] obtain c t
    where s1_eq: "s1 = s\<lparr>assertions := assertions s @ [c],
                          proteins_targeted := proteins_targeted s @ [t]\<rparr>"
      and c: "balance_of (df s) (peps_per_prot s) p c" by blast
  have pep1: "peptides s1 = map (\<lambda>k. (k, k)) keys" using s1_eq Cons.prems(2) by simp
  from Cons.IH [OF rest pep1] obtain cs ts
    where s'_eq: "s' = s1\<lparr>assertions := assertions s1 @ cs,
                           proteins_targeted := proteins_targeted s1 @ ts\<rparr>"
      and cs: "list_all2 (balance_of (df s1) (peps_per_prot s1)) ps cs" by blast
  have "s' = s\<lparr>assertions := assertions s @ (c # cs),
               proteins_targeted := proteins_targeted s @ (t # ts)\<rparr>"
    using s'_eq s1_eq by simp
  moreover have "list_all2 (balance_of (df s) (peps_per_prot s)) (p # ps) (c # cs)"
    using c cs s1_eq by simp
  ultimately show ?case by blast
qed

lemma slot_step_Inr:
  assumes "slot_step args e i s = Inr s'" and "peptides s = map (\<lambda>k. (k, k)) keys"
  shows "\<exists>cs. s' = s\<lparr>assertions := assertions s @ cs\<rparr>
           \<and> capacity_of (df s) (targets_per_cycle s) i cs"
proof (cases "covering (df s) i = []")
  case True
  with assms(1) have "s' = s\<lparr>assertions := assertions s @ []\<rparr>"
    by (simp add: slot_step_def covering_def Let_def)
  with True show ?thesis unfolding capacity_of_def by auto
next
  case False
  let ?ids = "remdups (map peptide_id (covering (df s) i))"
  from assms(1) False obtain vs a where vs: "lookup_all (peptides s) ?ids = Inr vs"
    and a: "args = Some a"
    by (auto simp: slot_step_def covering_def Let_def split: sum.splits option.splits)
  from vs assms(2) have vs_ids: "vs = ?ids" by (auto dest: lookup_all_self)
  let ?vs = "if args_shuffle a then permute (shuffle_slot e i) vs else vs"
  from assms(1) False vs a
  have "s' = s\<lparr>assertions := assertions s @ [Assert (AtMost ?vs (targets_per_cycle s))]\<rparr>"
    by (simp add: slot_step_def covering_def Let_def)
  moreover have "mset ?vs = mset ?ids" using vs_ids by simp
  ultimately show ?thesis using False unfolding capacity_of_def by auto
qed

lemma assign_slots_Inr:
  assumes "assign_slots args e steps s = Inr s'" and "peptides s = map (\<lambda>k. (k, k)) keys"
  shows "\<exists>css. s' = s\<lparr>assertions := assertions s @ concat css\<rparr>
           \<and> list_all2 (capacity_of (df s) (targets_per_cycle s)) steps css"
  using assms
proof (induction steps arbitrary: s)
  case Nil
  then have "s' = s\<lparr>assertions := assertions s @ concat []\<rparr>" by simp
  then show ?case by (metis list_all2_Nil)
next
  case (Cons i steps)
  from Cons.prems(1) obtain s1 where s1: "slot_step args e i s = Inr s1"
    and rest: "assign_slots args e steps s1 = Inr s'"
    by (auto split: sum.splits)
  from slot_step_Inr [OF s1 Cons.prems(2)] obtain cs
    where s1_eq: "s1 = s\<lparr>assertions := assertions s @ cs\<rparr>"
      and c: "capacity_of (df s) (targets_per_cycle s) i cs" by blast
  have pep1: "peptides s1 = map (\<lambda>k. (k, k)) keys" using s1_eq Cons.prems(2) by simp
  from Cons.IH [OF rest pep1] obtain css
    where s'_eq: "s' = s1\<lparr>assertions := assertions s1 @ concat css\<rparr>"
      and cs: "list_all2 (capacity_of (df s1) (targets_per_cycle s1)) steps css" by blast
  have "s' = s\<lparr>assertions := assertions s @ concat (cs # css)\<rparr>"
    using s'_eq s1_eq by simp
  moreover have "list_all2 (capacity_of (df s) (targets_per_cycle s)) (i # steps) (cs # css)"
    using c cs s1_eq by simp
  ultimately show ?case by blast
qed

lemma global_hint_Inr:
  assumes "global_hint s = Inr s'" and "peptides s = map (\<lambda>k. (k, k)) keys"
  shows "s' = (logger DEBUG ''Modeling max targetable peptides (including offset) as: {}''
                 [max_targetable s] s)
              \<lparr>assertions := assertions s @
                 [Assert (AtMost (peptide_order s) (max_targetable s))]\<rparr>
         \<and> df s \<noteq> [] \<and> peptide_order s \<noteq> []"
proof -
  from assms(1) obtain vs where vs: "lookup_all (peptides s) (peptide_order s) = Inr vs"
    by (auto simp: global_hint_def split: sum.splits)
  with assms(2) have "vs = peptide_order s" by (auto dest: lookup_all_self)
  with assms(1) vs show ?thesis
    by (auto simp: global_hint_def split: if_splits)
qed

lemma time_steps_cong:
  "df s' = df s \<Longrightarrow> shuffle s' = shuffle s \<Longrightarrow> time_steps e s' = time_steps e s"
  by (simp add: time_steps_def)

lemma build_model_Inr:
  assumes "build_model args e s = Inr s'"
  shows "\<exists>pcs ts css.
           assertions s' = Assert (AtMost (peptide_order s) (max_targetable s))
                             # pcs @ SumGt ts 0 # concat css
         \<and> list_all2 (balance_of (df s) (peps_per_prot s)) (protein_order s) pcs
         \<and> list_all2 (capacity_of (df s) (targets_per_cycle s)) (time_steps e s) css
         \<and> proteins_targeted s' = ts
         \<and> peptides s' = map (\<lambda>k. (k, k)) (fromkeys (peptide_order s))
         \<and> df s' = df s \<and> df s \<noteq> [] \<and> peptide_order s \<noteq> []
         \<and> peps_per_prot s' = peps_per_prot s \<and> targets_per_cycle s' = targets_per_cycle s
         \<and> protein_order s' = protein_order s \<and> peptide_order s' = peptide_order s
         \<and> timeout s' = timeout s \<and> files s' = files s \<and> trace s' = trace s
         \<and> checks s' = checks s \<and> dst s' = dst s \<and> dirs s' = dirs s
         \<and> columns s' = columns s"
proof -
  let ?keys = "fromkeys (peptide_order s)"
  define s1 where "s1 = create_peptides (new_solver s)"
  have s1: "peptides s1 = map (\<lambda>k. (k, k)) ?keys" "assertions s1 = []" "df s1 = df s"
    "peptide_order s1 = peptide_order s" "protein_order s1 = protein_order s"
    "peps_per_prot s1 = peps_per_prot s" "targets_per_cycle s1 = targets_per_cycle s"
    "max_targetable s1 = max_targetable s" "shuffle s1 = shuffle s"
    "timeout s1 = timeout s" "files s1 = files s" "trace s1 = trace s" "checks s1 = checks s"
    "dst s1 = dst s" "dirs s1 = dirs s" "columns s1 = columns s"
    by (simp_all add: s1_def create_peptides_def new_solver_def max_targetable_def Let_def)
  from assms obtain s2 where s2: "global_hint s1 = Inr s2"
    by (auto simp: build_model_def s1_def split: sum.splits)
  from global_hint_Inr [OF s2 s1(1)]
  have s2_eq: "s2 = (logger DEBUG ''Modeling max targetable peptides (including offset) as: {}''
                 [max_targetable s1] s1)
              \<lparr>assertions := assertions s1 @
                 [Assert (AtMost (peptide_order s1) (max_targetable s1))]\<rparr>"
    and ne: "df s \<noteq> []" "peptide_order s \<noteq> []" using s1 by auto
  define s3 where "s3 = (logger INFO ''Assigning the protein-peptide relationship'' [] s2)
                          \<lparr>proteins_targeted := []\<rparr>"
  have s3: "peptides s3 = map (\<lambda>k. (k, k)) ?keys"
    "assertions s3 = [Assert (AtMost (peptide_order s) (max_targetable s))]"
    "df s3 = df s" "peptide_order s3 = peptide_order s" "protein_order s3 = protein_order s"
    "peps_per_prot s3 = peps_per_prot s" "targets_per_cycle s3 = targets_per_cycle s"
    "shuffle s3 = shuffle s" "proteins_targeted s3 = []"
    "timeout s3 = timeout s" "files s3 = files s" "trace s3 = trace s" "checks s3 = checks s"
    "dst s3 = dst s" "dirs s3 = dirs s" "columns s3 = columns s"
    by (simp_all add: s3_def s2_eq s1)
  from assms s2 obtain s4 where s4: "assign_proteins args e (protein_order s3) s3 = Inr s4"
    by (auto simp: build_model_def s1_def s3_def Let_def split: sum.splits)
  from assign_proteins_Inr [OF s4 s3(1)] obtain pcs ts
    where s4_eq: "s4 = s3\<lparr>assertions := assertions s3 @ pcs,
                           proteins_targeted := proteins_targeted s3 @ ts\<rparr>"
      and pcs: "list_all2 (balance_of (df s3) (peps_per_prot s3)) (protein_order s3) pcs"
    by blast
  define s5 where "s5 = logger INFO ''Assigning gradient constraints'' [] (initial_target s4)"
  define s6 where "s6 = logger DEBUG ''Time steps to model: {}''
                          [int (length (time_steps e s5))] s5"
  have s6: "peptides s6 = map (\<lambda>k. (k, k)) ?keys"
    "assertions s6 = Assert (AtMost (peptide_order s) (max_targetable s)) # pcs @ [SumGt ts 0]"
    "df s6 = df s" "peptide_order s6 = peptide_order s" "protein_order s6 = protein_order s"
    "peps_per_prot s6 = peps_per_prot s" "targets_per_cycle s6 = targets_per_cycle s"
    "shuffle s6 = shuffle s" "proteins_targeted s6 = ts"
    "timeout s6 = timeout s" "files s6 = files s" "trace s6 = trace s" "checks s6 = checks s"
    "dst s6 = dst s" "dirs s6 = dirs s" "columns s6 = columns s"
    by (simp_all add: s6_def s5_def initial_target_def Let_def s4_eq s3)
  have steps: "time_steps e s5 = time_steps e s"
    by (rule time_steps_cong) (simp_all add: s5_def initial_target_def Let_def s4_eq s3)
  from assms s2 s4 have s': "assign_slots args e (time_steps e s5) s6 = Inr s'"
    by (simp add: build_model_def s1_def [symmetric] s3_def s5_def s6_def Let_def)
  from assign_slots_Inr [OF s' s6(1)] obtain css
    where s'_eq: "s' = s6\<lparr>assertions := assertions s6 @ concat css\<rparr>"
      and css: "list_all2 (capacity_of (df s6) (targets_per_cycle s6)) (time_steps e s5) css"
    by blast
  have "assertions s' = Assert (AtMost (peptide_order s) (max_targetable s))
                             # pcs @ SumGt ts 0 # concat css"
    using s'_eq s6 by simp
  moreover have "list_all2 (balance_of (df s) (peps_per_prot s)) (protein_order s) pcs"
    using pcs s3 by simp
  moreover have "list_all2 (capacity_of (df s) (targets_per_cycle s)) (time_steps e s) css"
    using css s6 steps by simp
  ultimately show ?thesis using s'_eq s6 ne by auto
qed

lemma card_selected:
  "card {f r | r. r \<in> set rows \<and> P r \<and> m (f r)}
     = length (filter m (remdups (map f (filter P rows))))"
proof -
  have "{f r | r. r \<in> set rows \<and> P r \<and> m (f r)} = set (filter m (remdups (map f (filter P rows))))"
    by auto
  then show ?thesis by (simp only: distinct_card [OF distinct_filter [OF distinct_remdups]])
qed

lemma col_min_Min: "xs \<noteq> [] \<Longrightarrow> col_min xs = Min (set xs)"
  by (cases xs) (simp_all add: col_min_def Min.set_eq_fold [symmetric])

lemma col_max_Max: "xs \<noteq> [] \<Longrightarrow> col_max xs = Max (set xs)"
  by (cases xs) (simp_all add: col_max_def Max.set_eq_fold [symmetric])

lemma set_time_steps:
  "set (time_steps e s) = {max (col_min (map rt_start (df s))) 0 .. col_max (map rt_stop (df s))}"
  by (simp add: time_steps_def Let_def)

lemma list_all2_find:
  assumes "list_all2 R xs ys" and "x \<in> set xs"
  shows "\<exists>y\<in>set ys. R x y"
  using assms by (induction rule: list_all2_induct) auto

lemma selected_at_list:
  "selected_at m s t = length (filter m (remdups (map peptide_id (covering (df s) t))))"
  unfolding selected_at_def covering_def
  using card_selected [of peptide_id "df s" "\<lambda>r. rt_start r \<le> t \<and> t \<le> rt_stop r" m]
  by (simp only: conj_assoc)

lemma selected_of_protein_list:
  "selected_of_protein m s p
     = length (filter m (remdups (map peptide_id (filter (\<lambda>r. protein_id r = p) (df s)))))"
  unfolding selected_of_protein_def by (rule card_selected)

lemma ex_built: "build_model ex_args ex_env ex_loaded = Inr ex_built"
proof -
  have "\<not> isl (build_model ex_args ex_env ex_loaded)" by code_simp
  then show ?thesis by (simp add: ex_built_def)
qed

lemma early_built:
  "build_model ex_args ex_env (projr (load ex_args ex_env early_table early_needler))
     = Inr early_built"
proof -
  have "\<not> isl (build_model ex_args ex_env
            (projr (load ex_args ex_env early_table early_needler)))" by code_simp
  then show ?thesis by (simp add: early_built_def)
qed

subsection \<open>Protein all-or-nothing\<close>

text \<open>
  Claim C1. In every assignment that satisfies the constraints asserted by
  \<^verbatim>\<open>build_model\<close> (every solution of a satisfiable check: the loop only adds
  constraints), and for every protein of the model, the number of the protein's peptides
  assigned true is 0 or exactly \<^verbatim>\<open>peps_per_prot\<close>.
\<close>

theorem protein_all_or_nothing:
  assumes "build_model args e s = Inr s'"
    and "\<forall>c\<in>set (assertions s'). holds m c"
    and "p \<in> set (protein_order s')"
  shows "selected_of_protein m s' p = 0
         \<or> int (selected_of_protein m s' p) = peps_per_prot s'"
proof -
  from build_model_Inr [OF assms(1)] obtain pcs ts css
    where a: "assertions s' = Assert (AtMost (peptide_order s) (max_targetable s))
                             # pcs @ SumGt ts 0 # concat css"
      and pcs: "list_all2 (balance_of (df s) (peps_per_prot s)) (protein_order s) pcs"
      and eqs: "df s' = df s" "peps_per_prot s' = peps_per_prot s"
               "protein_order s' = protein_order s"
    by blast
  let ?ids = "remdups (map peptide_id (filter (\<lambda>r. protein_id r = p) (df s)))"
  from list_all2_find [OF pcs] assms(3) eqs obtain c
    where c: "c \<in> set pcs" and b: "balance_of (df s) (peps_per_prot s) p c" by auto
  from b obtain pbs where c_eq: "c = Assert (Or (PbEq pbs 0) (PbEq pbs (peps_per_prot s)))"
    and pbs: "mset pbs = mset (map (\<lambda>v. (v, 1)) ?ids)"
    unfolding balance_of_def by blast
  from c a assms(2) have "holds m c" by simp
  moreover have "(\<Sum>q\<leftarrow>pbs. if m (fst q) then snd q else 0) = int (length (filter m ?ids))"
    using mset_eq_sum_list [OF pbs, of "\<lambda>q. if m (fst q) then snd q else 0"]
    by (simp only: pbeq_count)
  ultimately have "int (length (filter m ?ids)) = 0 \<or> int (length (filter m ?ids)) = peps_per_prot s"
    by (simp add: c_eq)
  moreover have "selected_of_protein m s' p = length (filter m ?ids)"
    unfolding selected_of_protein_def eqs by (rule card_selected)
  ultimately show ?thesis using eqs by simp
qed

theorem protein_all_or_nothing_witness:
  "build_model ex_args ex_env ex_loaded = Inr ex_built
   \<and> list_all (holds ex_model) (assertions ex_built)
   \<and> ''A'' \<in> set (protein_order ex_built)
   \<and> (selected_of_protein ex_model ex_built ''A'' = 0
      \<or> int (selected_of_protein ex_model ex_built ''A'') = peps_per_prot ex_built)"
proof -
  have h: "list_all (holds ex_model) (assertions ex_built)" by code_simp
  have p: "''A'' \<in> set (protein_order ex_built)" by code_simp
  from h have "\<forall>c\<in>set (assertions ex_built). holds ex_model c" by (simp add: list_all_iff)
  from protein_all_or_nothing [OF ex_built this p] h p ex_built show ?thesis by simp
qed

subsection \<open>Capacity of a time slot\<close>

text \<open>
  For a second \<open>t \<ge> 0\<close> and a capacity \<open>\<ge> 0\<close>, every assignment that satisfies the asserted
  constraints selects at most \<^verbatim>\<open>targets_per_cycle\<close> of the peptides whose window
  \<open>[rt_start, rt_stop]\<close> holds \<open>t\<close>; a second \<open>t \<ge> 0\<close> that some window holds lies in
  \<open>[max(min(start), 0), max(stop)]\<close> and has its at-most constraint over the peptides
  covering it.
\<close>

lemma slot_capacity:
  assumes "build_model args e s = Inr s'"
    and "\<forall>c\<in>set (assertions s'). holds m c"
    and "0 \<le> t" and "0 \<le> targets_per_cycle s'"
  shows "int (selected_at m s' t) \<le> targets_per_cycle s'
         \<and> (covering (df s') t \<noteq> [] \<longrightarrow>
              max (Min (set (map rt_start (df s')))) 0 \<le> t
              \<and> t \<le> Max (set (map rt_stop (df s')))
              \<and> (\<exists>vs. Assert (AtMost vs (targets_per_cycle s')) \<in> set (assertions s')
                     \<and> mset vs = mset (remdups (map peptide_id (covering (df s') t)))))"
proof -
  from build_model_Inr [OF assms(1)] obtain pcs ts css
    where a: "assertions s' = Assert (AtMost (peptide_order s) (max_targetable s))
                             # pcs @ SumGt ts 0 # concat css"
      and css: "list_all2 (capacity_of (df s) (targets_per_cycle s)) (time_steps e s) css"
      and eqs: "df s' = df s" "targets_per_cycle s' = targets_per_cycle s"
      and ne: "df s \<noteq> []"
    by blast
  let ?ids = "remdups (map peptide_id (covering (df s) t))"
  have sel: "selected_at m s' t = length (filter m ?ids)"
    unfolding selected_at_def eqs covering_def
    using card_selected [of peptide_id "df s" "\<lambda>r. rt_start r \<le> t \<and> t \<le> rt_stop r" m]
    by (simp only: conj_assoc)
  show ?thesis
  proof (cases "covering (df s) t = []")
    case True
    then show ?thesis using sel assms(4) eqs by simp
  next
    case False
    then obtain r where r: "r \<in> set (df s)" "rt_start r \<le> t" "t \<le> rt_stop r"
      by (auto simp: covering_def filter_empty_conv)
    have "Min (set (map rt_start (df s))) \<le> rt_start r"
      by (rule Min_le) (use r in auto)
    then have lo: "Min (set (map rt_start (df s))) \<le> t" using r by linarith
    have "rt_stop r \<le> Max (set (map rt_stop (df s)))"
      by (rule Max_ge) (use r in auto)
    then have hi: "t \<le> Max (set (map rt_stop (df s)))" using r by linarith
    from lo hi assms(3) ne have "t \<in> set (time_steps e s)"
      by (simp add: set_time_steps col_min_Min col_max_Max)
    from list_all2_find [OF css this] obtain cs
      where cs: "cs \<in> set css" and cap: "capacity_of (df s) (targets_per_cycle s) t cs" by blast
    from cap False obtain vs where cs_eq: "cs = [Assert (AtMost vs (targets_per_cycle s))]"
      and vs: "mset vs = mset ?ids"
      unfolding capacity_of_def by auto
    from cs cs_eq have "Assert (AtMost vs (targets_per_cycle s)) \<in> set (concat css)"
      by (auto intro: bexI [of _ cs])
    then have mem: "Assert (AtMost vs (targets_per_cycle s)) \<in> set (assertions s')"
      unfolding a by simp
    with assms(2) have "holds m (Assert (AtMost vs (targets_per_cycle s)))" by blast
    then have "int (length (filter m vs)) \<le> targets_per_cycle s" by simp
    with mset_eq_length_filter [OF vs, of m] have "int (length (filter m ?ids)) \<le> targets_per_cycle s"
      by simp
    with sel lo hi assms(3) mem vs show ?thesis unfolding eqs by auto
  qed
qed

text \<open>
  Were no start negative, as the claim and the program's own log message have it, the
  bound would hold at every integer second.
\<close>

lemma slot_capacity_clamped:
  assumes "build_model args e s = Inr s'"
    and "\<forall>c\<in>set (assertions s'). holds m c"
    and "\<forall>r\<in>set (df s'). 0 \<le> rt_start r" and "0 \<le> targets_per_cycle s'"
  shows "int (selected_at m s' t) \<le> targets_per_cycle s'"
proof (cases "0 \<le> t")
  case True
  from slot_capacity [OF assms(1,2) True assms(4)] show ?thesis by blast
next
  case False
  with assms(3) have "covering (df s') t = []"
    by (auto simp: covering_def filter_empty_conv)
  then show ?thesis using assms(4) by (simp add: selected_at_list)
qed

text \<open>
  Claim C2. The bound fails below second 0, where windows reach because \<^verbatim>\<open>load\<close> does not
  clamp \<^verbatim>\<open>rt_start\<close>: for a protein whose two peptides are predicted at -10 s, with
  width 2 and one target per cycle, both windows are \<open>[-12, -8]\<close>, no second is modelled
  (they start at \<open>max(min(start), 0)\<close>), the assignment selecting both peptides satisfies
  every asserted constraint, and two selected peptides cover second -10.
\<close>

theorem unclamped_window_over_capacity:
  "build_model ex_args ex_env (projr (load ex_args ex_env early_table early_needler))
     = Inr early_built
   \<and> map rt_start (df early_built) = [- 12, - 12]
   \<and> map rt_stop (df early_built) = [- 8, - 8]
   \<and> time_steps ex_env early_built = []
   \<and> list_all (holds ex_model) (assertions early_built)
   \<and> targets_per_cycle early_built = 1
   \<and> selected_at ex_model early_built (- 10) = 2"
proof -
  have "list_all (holds ex_model) (assertions early_built)" by code_simp
  moreover have "targets_per_cycle early_built = 1" by code_simp
  moreover have "map rt_start (df early_built) = [- 12, - 12]"
    "map rt_stop (df early_built) = [- 8, - 8]"
    "time_steps ex_env early_built = []" by code_simp+
  moreover have "selected_at ex_model early_built (- 10) = 2"
    unfolding selected_at_list by code_simp
  ultimately show ?thesis using early_built by simp
qed

subsection \<open>The global cardinality hint\<close>



lemma annotate_fields [simp]:
  "trace (annotate_used m s) = trace s"
  "assertions (annotate_used m s) = assertions s"
  "proteins_targeted (annotate_used m s) = proteins_targeted s"
  "files (annotate_used m s) = files s"
  "trace (annotate_targeted s) = trace s"
  "assertions (annotate_targeted s) = assertions s"
  "proteins_targeted (annotate_targeted s) = proteins_targeted s"
  "files (annotate_targeted s) = files s"
  by (simp_all add: annotate_used_def annotate_targeted_def)

lemma reset_budget_fields:
  assumes "reset_budget e i r s = (r', s')"
  shows "trace s' = trace s \<and> assertions s' = assertions s
         \<and> proteins_targeted s' = proteins_targeted s \<and> files s' = files s
         \<and> timeout s' = timeout s \<and> (0 < timeout s \<longrightarrow> r' \<noteq> None)
         \<and> (\<not> 0 < timeout s \<longrightarrow> r' = r)"
  using assms by (auto simp: reset_budget_def Let_def split: if_splits)

lemma save_Inr:
  assumes "save s = Inr s'"
  shows "trace s' = trace s \<and> assertions s' = assertions s
         \<and> proteins_targeted s' = proteins_targeted s"
  using assms by (auto simp: save_def Let_def split: if_splits list.splits)

lemma save_Inl:
  assumes "save s = Inl (err, s')"
  shows "trace s' = trace s \<and> assertions s' = assertions s \<and> files s' = files s"
  using assms by (auto simp: save_def Let_def split: if_splits list.splits)

lemma ratchet_bounds_append [simp]:
  "ratchet_bounds (xs @ ys) = ratchet_bounds xs @ ratchet_bounds ys"
  by (simp add: ratchet_bounds_def)

lemma ratchet_bounds_simps [simp]:
  "ratchet_bounds [] = []"
  "ratchet_bounds (SumGt ts k # cs) = k # ratchet_bounds cs"
  "ratchet_bounds (Assert b # cs) = ratchet_bounds cs"
  by (simp_all add: ratchet_bounds_def)

lemma final_simps [simp]: "final (Inr s) = s" "final (Inl (err, s)) = s"
  by (simp_all add: final_def)

text \<open>What one pass of the loop adds to the trace and to the ratchet bounds.\<close>

lemma on_sat_Again_effect:
  assumes "on_sat b r m s = Again b' r' s'"
  shows "trace s' = trace s @ [(b', b, True)]
         \<and> ratchet_bounds (assertions s') = ratchet_bounds (assertions s) @ [int b']"
  using assms
  by (auto simp: on_sat_def Let_def split: if_splits sum.splits dest!: save_Inr)

lemma on_sat_Stop_effect:
  assumes "on_sat b r m s = Stop x"
  shows "\<exists>pt ks. trace (final x) = trace s @ [(pt, b, b < pt)]
           \<and> ratchet_bounds (assertions (final x)) = ratchet_bounds (assertions s) @ ks
           \<and> (ks = [] \<or> ks = [int pt] \<and> b < pt)"
proof -
  let ?s1 = "annotate_used m s"
  let ?pt = "length (protein_targets ?s1)"
  show ?thesis
  proof (cases "b < ?pt")
    case False
    with assms show ?thesis
      by (auto simp: on_sat_def Let_def intro!: exI [of _ ?pt])
  next
    case True
    let ?s2 = "(logger DEBUG ''Created model targeting proteins: {} peptides: {}''
                [int ?pt, int (length (remdups (used_peptides m s)))] (annotate_targeted ?s1))
               \<lparr>trace := trace s @ [(?pt, b, True)]\<rparr>"
    show ?thesis
    proof (cases "save ?s2")
      case (Inl a)
      obtain err sx where a: "a = (err, sx)" by (cases a)
      from assms True Inl have "x = Inl a" by (simp add: on_sat_def Let_def)
      with save_Inl [of ?s2 err sx] Inl a True show ?thesis
        by (auto intro!: exI [of _ ?pt])
    next
      case (Inr s3)
      from assms True Inr
      have "x = Inr (logger INFO ''SOLVED! Model targets all provided proteins'' []
                  (s3\<lparr>assertions := assertions s3 @ [SumGt (proteins_targeted s3) (int ?pt)]\<rparr>))"
        by (auto simp: on_sat_def Let_def split: if_splits)
      with save_Inr [OF Inr] True show ?thesis
        by (auto intro!: exI [of _ ?pt])
    qed
  qed
qed

lemma optimize_body_Again_effect:
  assumes "optimize_body e b r s = Again b' r' s'"
  shows "trace s' = trace s @ [(b', b, True)]
         \<and> ratchet_bounds (assertions s') = ratchet_bounds (assertions s) @ [int b']"
  using assms
  by (auto simp: optimize_body_def Let_def
        split: prod.splits z3_result.splits option.splits
        dest!: on_sat_Again_effect reset_budget_fields)

lemma optimize_body_Stop_effect:
  assumes "optimize_body e b r s = Stop x"
  shows "\<exists>new ks. trace (final x) = trace s @ new
           \<and> (new = [] \<or> (\<exists>pt. new = [(pt, b, b < pt)] \<and> (ks = [] \<or> ks = [int pt] \<and> b < pt)))
           \<and> (new = [] \<longrightarrow> ks = [])
           \<and> ratchet_bounds (assertions (final x)) = ratchet_bounds (assertions s) @ ks"
proof -
  obtain r1 s1 where rb: "reset_budget e (checks s) r (s\<lparr>checks := Suc (checks s)\<rparr>) = (r1, s1)"
    by (cases "reset_budget e (checks s) r (s\<lparr>checks := Suc (checks s)\<rparr>)")
  from reset_budget_fields [OF rb]
  have f: "trace s1 = trace s" "assertions s1 = assertions s" by simp_all
  show ?thesis
  proof (cases "check e (checks s) (assertions s)")
    case (sat m)
    with assms rb have "on_sat b r1 m s1 = Stop x" by (simp add: optimize_body_def Let_def)
    from on_sat_Stop_effect [OF this] f show ?thesis by (metis list.distinct(1))
  next
    case unsat
    with assms rb f have "trace (final x) = trace s @ []"
      "ratchet_bounds (assertions (final x)) = ratchet_bounds (assertions s) @ []"
      by (auto simp: optimize_body_def Let_def)
    then show ?thesis by blast
  next
    case unknown
    with assms rb f have "trace (final x) = trace s @ []"
      "ratchet_bounds (assertions (final x)) = ratchet_bounds (assertions s) @ []"
      by (auto simp: optimize_body_def Let_def split: option.splits)
    then show ?thesis by blast
  qed
qed

subsection \<open>The search loop\<close>

lemma persisted_simps [simp]:
  "persisted [] = []"
  "persisted ((pt, b, True) # tr) = pt # persisted tr"
  "persisted ((pt, b, False) # tr) = persisted tr"
  by (simp_all add: persisted_def)

lemma optimize_loop_run:
  "\<exists>new ks. trace (final (optimize_loop e b r s)) = trace s @ new
     \<and> list_all (\<lambda>(pt, best, saved). saved = (best < pt)) new
     \<and> sorted_wrt (<) (persisted new)
     \<and> (\<forall>x\<in>set (persisted new). b < x)
     \<and> length new \<le> nunique (map protein_id (df s)) - b + 1
     \<and> ratchet_bounds (assertions (final (optimize_loop e b r s)))
         = ratchet_bounds (assertions s) @ ks
     \<and> sorted_wrt (<) ks \<and> (\<forall>k\<in>set ks. int b < k)"
proof (induction e b r s rule: optimize_loop.induct)
  case (1 e b r s)
  show ?case
  proof (cases "optimize_body e b r s")
    case (Stop x)
    then have loop: "optimize_loop e b r s = x" by (subst optimize_loop.simps) simp
    from optimize_body_Stop_effect [OF Stop] obtain new ks
      where t: "trace (final x) = trace s @ new"
        and n: "new = [] \<or> (\<exists>pt. new = [(pt, b, b < pt)] \<and> (ks = [] \<or> ks = [int pt] \<and> b < pt))"
        and k0: "new = [] \<longrightarrow> ks = []"
        and k: "ratchet_bounds (assertions (final x)) = ratchet_bounds (assertions s) @ ks"
      by blast
    have "list_all (\<lambda>(pt, best, saved). saved = (best < pt)) new"
      using n by auto
    moreover have "sorted_wrt (<) (persisted new)"
      using n by (auto simp: persisted_def)
    moreover have "\<forall>x\<in>set (persisted new). b < x"
      using n by (auto simp: persisted_def)
    moreover have "length new \<le> nunique (map protein_id (df s)) - b + 1"
      using n by auto
    moreover have "sorted_wrt (<) ks \<and> (\<forall>k\<in>set ks. int b < k)"
      using n k0 by auto
    ultimately show ?thesis unfolding loop using t k by blast
  next
    case (Again b' r' s')
    then have loop: "optimize_loop e b r s = optimize_loop e b' r' s'"
      by (subst optimize_loop.simps) simp
    from optimize_body_Again [OF Again]
    have ids: "map protein_id (df s') = map protein_id (df s)" and lt: "b < b'"
      and bound: "b' < nunique (map protein_id (df s))" by simp_all
    from optimize_body_Again_effect [OF Again]
    have t: "trace s' = trace s @ [(b', b, True)]"
      and k: "ratchet_bounds (assertions s') = ratchet_bounds (assertions s) @ [int b']"
      by simp_all
    from "1.IH" [OF Again] obtain new ks
      where t': "trace (final (optimize_loop e b' r' s')) = trace s' @ new"
        and all: "list_all (\<lambda>(pt, best, saved). saved = (best < pt)) new"
        and srt: "sorted_wrt (<) (persisted new)"
        and gt: "\<forall>x\<in>set (persisted new). b' < x"
        and len: "length new \<le> nunique (map protein_id (df s')) - b' + 1"
        and k': "ratchet_bounds (assertions (final (optimize_loop e b' r' s')))
                   = ratchet_bounds (assertions s') @ ks"
        and ksrt: "sorted_wrt (<) ks" and kgt: "\<forall>k\<in>set ks. int b' < k"
      by blast
    let ?new = "(b', b, True) # new"
    let ?ks = "int b' # ks"
    have "trace (final (optimize_loop e b r s)) = trace s @ ?new"
      using t t' loop by simp
    moreover have "list_all (\<lambda>(pt, best, saved). saved = (best < pt)) ?new"
      using all lt by simp
    moreover have "sorted_wrt (<) (persisted ?new)"
      using srt gt by simp
    moreover have "\<forall>x\<in>set (persisted ?new). b < x"
      using gt lt by auto
    moreover have "length ?new \<le> nunique (map protein_id (df s)) - b + 1"
      using len ids lt bound by simp
    moreover have "ratchet_bounds (assertions (final (optimize_loop e b r s)))
                     = ratchet_bounds (assertions s) @ ?ks"
      using k k' loop by simp
    moreover have "sorted_wrt (<) ?ks \<and> (\<forall>k\<in>set ?ks. int b < k)"
      using ksrt kgt lt by auto
    ultimately show ?thesis by blast
  qed
qed

lemma optimize_run:
  "\<exists>new ks. trace (final (optimize e s)) = trace s @ new
     \<and> list_all (\<lambda>(pt, best, saved). saved = (best < pt)) new
     \<and> sorted_wrt (<) (persisted new)
     \<and> length new \<le> nunique (map protein_id (df s)) + 1
     \<and> ratchet_bounds (assertions (final (optimize e s))) = ratchet_bounds (assertions s) @ ks
     \<and> sorted_wrt (<) ks \<and> (\<forall>k\<in>set ks. 0 < k)"
proof -
  from optimize_loop_run [of e 0 None "logger INFO ''Begin model evaluation'' [] s"]
  obtain new ks
    where "trace (final (optimize e s)) = trace s @ new"
      "list_all (\<lambda>(pt, best, saved). saved = (best < pt)) new"
      "sorted_wrt (<) (persisted new)"
      "length new \<le> nunique (map protein_id (df s)) + 1"
      "ratchet_bounds (assertions (final (optimize e s))) = ratchet_bounds (assertions s) @ ks"
      "sorted_wrt (<) ks" "\<forall>k\<in>set ks. 0 < k"
    unfolding optimize_def by auto
  then show ?thesis by blast
qed

lemma ratchet_bounds_balance:
  "list_all2 (balance_of rows k) ps cs \<Longrightarrow> ratchet_bounds cs = []"
  by (induction rule: list_all2_induct) (auto simp: balance_of_def)

lemma ratchet_bounds_capacity:
  "list_all2 (capacity_of rows k) ts css \<Longrightarrow> ratchet_bounds (concat css) = []"
  by (induction rule: list_all2_induct) (auto simp: capacity_of_def split: if_splits)

text \<open>
  Claim C7. The lower bounds of the ratchet constraints, in the order asserted, start with
  the bound 0 of \<^verbatim>\<open>build_model\<close> and are strictly increasing; the loop returns (it is a
  total function, whatever the engine answers) after at most \<open>num_proteins + 1\<close> satisfiable
  iterations, \<open>num_proteins\<close> being the number of distinct proteins of the frame.
\<close>

theorem ratchet_terminates:
  assumes "build_model args e0 s0 = Inr s"
  shows "ratchet_bounds (assertions s) = [0]
         \<and> (\<exists>ks. ratchet_bounds (assertions (final (optimize e s))) = 0 # ks
                \<and> sorted_wrt (<) (0 # ks))
         \<and> length (trace (final (optimize e s))) - length (trace s)
             \<le> nunique (map protein_id (df s)) + 1"
proof -
  from build_model_Inr [OF assms] obtain pcs ts css
    where a: "assertions s = Assert (AtMost (peptide_order s0) (max_targetable s0))
                             # pcs @ SumGt ts 0 # concat css"
      and pcs: "list_all2 (balance_of (df s0) (peps_per_prot s0)) (protein_order s0) pcs"
      and css: "list_all2 (capacity_of (df s0) (targets_per_cycle s0)) (time_steps e0 s0) css"
    by blast
  have init: "ratchet_bounds (assertions s) = [0]"
    unfolding a using ratchet_bounds_balance [OF pcs] ratchet_bounds_capacity [OF css]
    by simp
  from optimize_run [of e s] obtain new ks
    where t: "trace (final (optimize e s)) = trace s @ new"
      and len: "length new \<le> nunique (map protein_id (df s)) + 1"
      and k: "ratchet_bounds (assertions (final (optimize e s)))
                = ratchet_bounds (assertions s) @ ks"
      and ksrt: "sorted_wrt (<) ks" and kgt: "\<forall>k\<in>set ks. 0 < k"
    by blast
  from k init ksrt kgt
  have "ratchet_bounds (assertions (final (optimize e s))) = 0 # ks \<and> sorted_wrt (<) (0 # ks)"
    by simp
  with init t len show ?thesis by auto
qed

theorem ratchet_terminates_witness:
  "build_model ex_args ex_env ex_loaded = Inr ex_built
   \<and> ratchet_bounds (assertions (final (optimize ex_env ex_built))) = [0, 1]
   \<and> trace (final (optimize ex_env ex_built)) = [(1, 0, True)]
   \<and> length (trace (final (optimize ex_env ex_built))) - length (trace ex_built)
        \<le> nunique (map protein_id (df ex_built)) + 1"
proof -
  have "ratchet_bounds (assertions (final (optimize ex_env ex_built))) = [0, 1]"
    by code_simp
  moreover have "trace (final (optimize ex_env ex_built)) = [(1, 0, True)]"
    by code_simp
  ultimately show ?thesis
    using ratchet_terminates [OF ex_built, of ex_env] ex_built by simp
qed

text \<open>
  Claim C6. When the engine answers \<open>unknown\<close> and the configured timeout is \<open>\<le> 0\<close>
  (unlimited, the default), the loop does not end in a terminal state: reading
  \<^verbatim>\<open>remainder_seconds\<close>, which is assigned only under \<^verbatim>\<open>if self.timeout > 0\<close>, raises
  \<^verbatim>\<open>UnboundLocalError\<close>. The files written so far stay as they are.
\<close>

theorem unknown_without_timeout:
  assumes "timeout s \<le> 0" and "check e (checks s) (assertions s) = unknown"
  shows "\<exists>s'. optimize e s = Inl (UnboundLocalError ''remainder_seconds'', s')
              \<and> files s' = files s"
proof -
  let ?s = "logger INFO ''Begin model evaluation'' [] s"
  from assms have "optimize_body e 0 None ?s
      = Stop (Inl (UnboundLocalError ''remainder_seconds'', ?s\<lparr>checks := Suc (checks s)\<rparr>))"
    by (simp add: optimize_body_def reset_budget_def Let_def)
  then show ?thesis by (simp add: optimize_def optimize_loop.simps)
qed

theorem unknown_without_timeout_witness:
  "timeout ex_built \<le> 0
   \<and> check halted_env (checks ex_built) (assertions ex_built) = unknown
   \<and> (\<exists>s'. optimize halted_env ex_built = Inl (UnboundLocalError ''remainder_seconds'', s')
          \<and> files s' = files ex_built)"
proof -
  have t: "timeout ex_built \<le> 0" by code_simp
  have u: "check halted_env (checks ex_built) (assertions ex_built) = unknown"
    by (simp add: halted_env_def)
  from unknown_without_timeout [OF t u] t u show ?thesis by simp
qed

text \<open>With a timeout \<open>> 0\<close> the same answer ends the loop without an exception.\<close>

lemma unknown_with_timeout:
  assumes "0 < timeout s" and "check e (checks s) (assertions s) = unknown"
  shows "\<exists>s'. optimize e s = Inr s' \<and> files s' = files s \<and> trace s' = trace s
              \<and> assertions s' = assertions s \<and> fst (last (log s')) = ERROR"
proof -
  let ?s = "logger INFO ''Begin model evaluation'' [] s"
  from assms have "\<exists>x. optimize_body e 0 None ?s = Stop (Inr x) \<and> files x = files s
      \<and> trace x = trace s \<and> assertions x = assertions s \<and> fst (last (log x)) = ERROR"
    by (simp add: optimize_body_def reset_budget_def Let_def logger_def)
  then show ?thesis by (auto simp: optimize_def optimize_loop.simps)
qed

subsection \<open>The normalized frame\<close>

text \<open>What the steps of \<^verbatim>\<open>load\<close> leave unchanged.\<close>

lemma read_input_Inr:
  assumes "read_input t s = Inr s'"
  shows "df s' = map (\<lambda>r. r\<lparr>protein_peps :=
                    group_nunique (map (\<lambda>r. r\<lparr>protein_id := accession r,
                                                 peptide_id := peptide_sequence r\<rparr>) (body t))
                      r\<rparr>)
                  (map (\<lambda>r. r\<lparr>protein_id := accession r, peptide_id := peptide_sequence r\<rparr>)
                     (body t))
         \<and> columns s' = header t @ [''protein_id'', ''peptide_id'', ''protein_peps'']
         \<and> rt_width s' = rt_width s \<and> shuffle s' = shuffle s \<and> sort_groups s' = sort_groups s
         \<and> peps_per_prot s' = peps_per_prot s \<and> files s' = files s
         \<and> assertions s' = assertions s \<and> checks s' = checks s"
  using assms by (auto simp: read_input_def Let_def logger_def split: if_splits)

lemma read_input_Inl:
  assumes "read_input t s = Inl (err, s')"
  shows "files s' = files s \<and> assertions s' = assertions s \<and> checks s' = checks s
         \<and> (\<exists>c. err = AttributeError c)"
  using assms by (auto simp: read_input_def Let_def split: if_splits)

lemma drop_proteins_Inr:
  assumes "drop_proteins args s = Inr s'"
  shows "(\<exists>P. df s' = filter P (df s)) \<and> columns s' = columns s
         \<and> rt_width s' = rt_width s \<and> shuffle s' = shuffle s \<and> sort_groups s' = sort_groups s
         \<and> peps_per_prot s' = peps_per_prot s \<and> files s' = files s
         \<and> assertions s' = assertions s \<and> checks s' = checks s"
proof (cases "filter (\<lambda>r. int (protein_peps r) < peps_per_prot s) (df s) = []")
  case True
  with assms have "s' = s" by (simp add: drop_proteins_def Let_def)
  moreover have "df s = filter (\<lambda>r. True) (df s)" by simp
  ultimately show ?thesis by metis
next
  case False
  with assms obtain a where "args = Some a"
    and "s' = logger INFO
           ''Dropping proteins with insufficient available peptides, proteins removed: {}''
           [int (nunique (map protein_id
                  (filter (\<lambda>r. int (protein_peps r) < peps_per_prot s) (df s))))]
           (s\<lparr>df := filter (\<lambda>r. int (protein_peps r) \<ge> args_peps_per_prot a) (df s)\<rparr>)"
    by (auto simp: drop_proteins_def Let_def split: option.splits)
  then show ?thesis by (auto simp: logger_def)
qed

lemma drop_proteins_Inl:
  assumes "drop_proteins args s = Inl (err, s')"
  shows "s' = s \<and> err = NameError ''args'' \<and> args = None"
  using assms by (auto simp: drop_proteins_def Let_def split: if_splits option.splits)

text \<open>
  The orders, the random identifiers and the size ordering keep the rows up to their
  order and their two identifiers; the processing orders list the identifiers of the
  frame, each once.
\<close>

definition orders_ok :: "needler \<Rightarrow> bool" where
  "orders_ok s =
     (set (peptide_order s) = set (map peptide_id (df s)) \<and> distinct (peptide_order s)
      \<and> set (protein_order s) = set (map protein_id (df s)) \<and> distinct (protein_order s))"

lemma orders_default: "orders_ok (default_orders s)"
  by (simp add: orders_ok_def default_orders_def)

lemma orders_shuffle_ids: "orders_ok s \<Longrightarrow> orders_ok (shuffle_ids e s)"
  by (simp add: orders_ok_def shuffle_ids_def Let_def logger_def)

lemma orders_sort_by_size: "orders_ok s \<Longrightarrow> orders_ok (sort_by_size s)"
  by (simp add: orders_ok_def sort_by_size_def Let_def logger_def)

lemma arrange_fields:
  "columns (sort_by_size (shuffle_ids e (default_orders s))) = columns s"
  "rt_width (sort_by_size (shuffle_ids e (default_orders s))) = rt_width s"
  "files (sort_by_size (shuffle_ids e (default_orders s))) = files s"
  "assertions (sort_by_size (shuffle_ids e (default_orders s))) = assertions s"
  "checks (sort_by_size (shuffle_ids e (default_orders s))) = checks s"
  "shuffle (sort_by_size (shuffle_ids e (default_orders s))) = shuffle s"
  "peps_per_prot (sort_by_size (shuffle_ids e (default_orders s))) = peps_per_prot s"
  by (simp_all add: sort_by_size_def shuffle_ids_def default_orders_def Let_def logger_def)

lemma arrange_rows:
  "map prosit_predicted_rt_seconds (df (sort_by_size (shuffle_ids e (default_orders s)))) = []
     \<longleftrightarrow> df s = []"
  by (simp add: sort_by_size_def shuffle_ids_def default_orders_def Let_def logger_def
        flip: length_0_conv)

lemma arrange_unshuffled:
  assumes "\<not> shuffle s"
  shows "set (df (sort_by_size (shuffle_ids e (default_orders s)))) = set (df s)"
  using assms by (simp add: sort_by_size_def shuffle_ids_def default_orders_def Let_def logger_def)

lemma elution_windows_Inr:
  assumes "elution_windows dt n s = Inr s'"
  shows "df s' = map (\<lambda>r. r\<lparr>rt_start := shift_cell dt (- 1) (prosit_predicted_rt_seconds r)
                                               (rt_width s),
                            rt_stop := shift_cell dt 1 (prosit_predicted_rt_seconds r)
                                               (rt_width s)\<rparr>) (df s)
         \<and> (0 < length (filter (\<lambda>r. rt_start r < 0) (df s')) \<longrightarrow>
              (INFO, ''Adjusting negative peptide rt_start values to 0 for peptides: {}'',
               [int (length (filter (\<lambda>r. rt_start r < 0) (df s')))]) \<in> set (log s'))
         \<and> peptide_order s' = peptide_order s \<and> protein_order s' = protein_order s
         \<and> rt_width s' = rt_width s \<and> shuffle s' = shuffle s
         \<and> peps_per_prot s' = peps_per_prot s \<and> files s' = files s
         \<and> assertions s' = assertions s \<and> checks s' = checks s"
  using assms
  by (auto simp: elution_windows_def Let_def logger_def comp_def
        split: if_splits option.splits)

lemma elution_windows_Inl:
  assumes "elution_windows dt n s = Inl (err, s')"
  shows "files s' = files s \<and> assertions s' = assertions s \<and> checks s' = checks s"
  using assms
  by (auto simp: elution_windows_def Let_def split: if_splits option.splits)

lemma orders_elution_windows:
  assumes "elution_windows dt n s = Inr s'" and "orders_ok s"
  shows "orders_ok s'"
  using elution_windows_Inr [OF assms(1)] assms(2)
  by (simp add: orders_ok_def comp_def)

lemma load_Inr:
  assumes "load args e t s = Inr s'"
  shows "orders_ok s' \<and> rt_width s' = rt_width s \<and> shuffle s' = shuffle s
         \<and> peps_per_prot s' = peps_per_prot s
         \<and> files s' = files s \<and> assertions s' = assertions s \<and> checks s' = checks s
         \<and> (\<forall>r\<in>set (df s').
               rt_start r = shift_cell (rt_dtype t) (- 1) (prosit_predicted_rt_seconds r)
                              (rt_width s)
             \<and> rt_stop r = shift_cell (rt_dtype t) 1 (prosit_predicted_rt_seconds r)
                              (rt_width s))
         \<and> (0 < length (filter (\<lambda>r. rt_start r < 0) (df s')) \<longrightarrow>
              (INFO, ''Adjusting negative peptide rt_start values to 0 for peptides: {}'',
               [int (length (filter (\<lambda>r. rt_start r < 0) (df s')))]) \<in> set (log s'))"
proof -
  from assms obtain s1 s2 where s1: "read_input t s = Inr s1"
    and s2: "drop_proteins args s1 = Inr s2"
    and s': "elution_windows (rt_dtype t) (length (body t))
               (sort_by_size (shuffle_ids e (default_orders s2))) = Inr s'"
    by (auto simp: load_def split: sum.splits)
  let ?s3 = "sort_by_size (shuffle_ids e (default_orders s2))"
  have ok: "orders_ok ?s3"
    by (intro orders_sort_by_size orders_shuffle_ids orders_default)
  note f1 = read_input_Inr [OF s1] and f2 = drop_proteins_Inr [OF s2]
    and f4 = elution_windows_Inr [OF s']
  have "orders_ok s'" by (rule orders_elution_windows [OF s' ok])
  moreover have "rt_width s' = rt_width s" "shuffle s' = shuffle s"
    "peps_per_prot s' = peps_per_prot s"
    "files s' = files s" "assertions s' = assertions s" "checks s' = checks s"
    using f1 f2 f4 by (simp_all add: arrange_fields)
  moreover have "\<forall>r\<in>set (df s').
               rt_start r = shift_cell (rt_dtype t) (- 1) (prosit_predicted_rt_seconds r)
                              (rt_width s)
             \<and> rt_stop r = shift_cell (rt_dtype t) 1 (prosit_predicted_rt_seconds r)
                              (rt_width s)"
    using f1 f2 f4 by (auto simp: arrange_fields)
  ultimately show ?thesis using f4 by blast
qed

lemma near_loaded: "load ex_args ex_env near_table wide_needler = Inr near_loaded"
proof -
  have "\<not> isl (load ex_args ex_env near_table wide_needler)" by code_simp
  then show ?thesis by (simp add: near_loaded_def)
qed

lemma lone_loaded: "load ex_args ex_env lone_table ex_needler = Inr lone_loaded"
proof -
  have "\<not> isl (load ex_args ex_env lone_table ex_needler)" by code_simp
  then show ?thesis by (simp add: lone_loaded_def)
qed

text \<open>
  On a file of integer times whose window bounds stay in the 64-bit range, the window is
  \<open>start = time - W\<close>, \<open>stop = time + W\<close>, which is \<open>round(time) \<mp> W\<close> there.
\<close>

lemma wrap64_id: "- (2 ^ 63) \<le> x \<Longrightarrow> x < 2 ^ 63 \<Longrightarrow> wrap64 x = x"
  by (simp add: wrap64_def)

lemma integer_window:
  assumes "load args e t s = Inr s'" and "rt_dtype t = int64" and "r \<in> set (df s')"
    and "prosit_predicted_rt_seconds r = of_int k"
    and "- (2 ^ 63) \<le> k - rt_width s" and "k - rt_width s < 2 ^ 63"
    and "- (2 ^ 63) \<le> k + rt_width s" and "k + rt_width s < 2 ^ 63"
  shows "rt_start r = round (prosit_predicted_rt_seconds r) - rt_width s
         \<and> rt_stop r = round (prosit_predicted_rt_seconds r) + rt_width s"
  using load_Inr [OF assms(1)] assms(2-8)
  by (auto simp: shift_cell_def wrap64_id)

text \<open>
  Claim C4. The window is computed as the claim says, but a negative start is not clamped:
  for the peptide predicted at second 3 with width 5, \<^verbatim>\<open>load\<close> logs that one start is
  adjusted to 0 and leaves \<^verbatim>\<open>rt_start = -2\<close> in the frame (nothing assigns \<^verbatim>\<open>rt_start\<close>
  after the count), so a peptide has \<open>start < 0\<close> after normalization.
\<close>

theorem negative_start_kept:
  "load ex_args ex_env near_table wide_needler = Inr near_loaded
   \<and> rt_width near_loaded = 5
   \<and> map prosit_predicted_rt_seconds (df near_loaded) = [3, 30]
   \<and> map rt_start (df near_loaded) = [- 2, 25]
   \<and> map rt_stop (df near_loaded) = [8, 35]
   \<and> (INFO, ''Adjusting negative peptide rt_start values to 0 for peptides: {}'', [1])
        \<in> set (log near_loaded)"
proof -
  have "rt_width near_loaded = 5"
    "map prosit_predicted_rt_seconds (df near_loaded) = [3, 30]"
    "map rt_start (df near_loaded) = [- 2, 25]"
    "map rt_stop (df near_loaded) = [8, 35]"
    "(INFO, ''Adjusting negative peptide rt_start values to 0 for peptides: {}'', [1])
        \<in> set (log near_loaded)"
    by code_simp+
  with near_loaded show ?thesis by simp
qed

lemma load_missing_column:
  assumes "c \<in> {''accession'', ''peptide_sequence'', ''prosit_predicted_rt_seconds''}"
    and "c \<notin> set (header t)"
  shows "\<exists>c' s'. load (Some a) e t s = Inl (AttributeError c', s')
           \<and> files s' = files s \<and> assertions s' = assertions s \<and> checks s' = checks s"
proof (cases "read_input t s")
  case (Inl x)
  obtain err sx where x: "x = (err, sx)" by (cases x)
  from read_input_Inl [of t s err sx] Inl x show ?thesis
    by (auto simp: load_def)
next
  case (Inr s1)
  note f1 = read_input_Inr [OF Inr]
  from Inr assms have c: "c = ''prosit_predicted_rt_seconds''"
    by (auto simp: read_input_def Let_def split: if_splits)
  obtain s2 where s2: "drop_proteins (Some a) s1 = Inr s2"
    by (cases "drop_proteins (Some a) s1") (auto dest: drop_proteins_Inl)
  note f2 = drop_proteins_Inr [OF s2]
  let ?s3 = "sort_by_size (shuffle_ids e (default_orders s2))"
  have "''prosit_predicted_rt_seconds'' \<notin> set (columns ?s3)"
    using assms(2) c f1 f2 by (simp add: arrange_fields)
  then have "elution_windows (rt_dtype t) (length (body t)) ?s3
               = Inl (AttributeError ''prosit_predicted_rt_seconds'', ?s3)"
    by (simp add: elution_windows_def)
  with Inr s2 have "load (Some a) e t s = Inl (AttributeError ''prosit_predicted_rt_seconds'', ?s3)"
    by (simp add: load_def)
  moreover have "files ?s3 = files s" "assertions ?s3 = assertions s" "checks ?s3 = checks s"
    using f1 f2 by (simp_all add: arrange_fields)
  ultimately show ?thesis by blast
qed

lemma build_model_empty:
  assumes "peptide_order s = []"
  shows "\<exists>s'. build_model args e s = Inl (Z3Exception ''Non empty list of arguments expected'', s')
           \<and> files s' = files s \<and> assertions s' = [] \<and> checks s' = checks s"
  using assms
  by (simp add: build_model_def global_hint_def lookup_all_def create_peptides_def
        new_solver_def Let_def logger_def)

text \<open>
  Claim C5, as amended. If the input table lacks one of the columns \<^verbatim>\<open>accession\<close>,
  \<^verbatim>\<open>peptide_sequence\<close>, \<^verbatim>\<open>prosit_predicted_rt_seconds\<close>, the program (run as a script,
  with \<^verbatim>\<open>args\<close> bound) raises \<^verbatim>\<open>AttributeError\<close> in \<^verbatim>\<open>load\<close>; if zero proteins remain after
  \<^verbatim>\<open>load\<close>, \<^verbatim>\<open>load\<close> returns and \<^verbatim>\<open>build_model\<close> raises on the empty list of variables. In
  both cases no constraint has been asserted, no check has run and no file has been
  written.
\<close>

theorem input_failures:
  "(c \<in> {''accession'', ''peptide_sequence'', ''prosit_predicted_rt_seconds''}
      \<and> c \<notin> set (header t) \<longrightarrow>
      (\<exists>c' s'. main (Some a) e t s = Inl (AttributeError c', s')
          \<and> files s' = files s \<and> assertions s' = assertions s \<and> checks s' = checks s))
   \<and> (load args e t2 s = Inr s1 \<and> nunique (map protein_id (df s1)) = 0 \<longrightarrow>
      (\<exists>s'. main args e t2 s
               = Inl (Z3Exception ''Non empty list of arguments expected'', s')
          \<and> files s' = files s \<and> assertions s' = [] \<and> checks s' = checks s))"
proof (intro conjI impI)
  assume "c \<in> {''accession'', ''peptide_sequence'', ''prosit_predicted_rt_seconds''}
      \<and> c \<notin> set (header t)"
  then have "\<exists>c' s'. load (Some a) e t s = Inl (AttributeError c', s')
           \<and> files s' = files s \<and> assertions s' = assertions s \<and> checks s' = checks s"
    using load_missing_column [of c t a e s] by blast
  then show "\<exists>c' s'. main (Some a) e t s = Inl (AttributeError c', s')
          \<and> files s' = files s \<and> assertions s' = assertions s \<and> checks s' = checks s"
    by (auto simp: main_def)
next
  assume h: "load args e t2 s = Inr s1 \<and> nunique (map protein_id (df s1)) = 0"
  then have l: "load args e t2 s = Inr s1" and "df s1 = []"
    by (simp_all add: nunique_def)
  with load_Inr [OF l] have "peptide_order s1 = []" and f: "files s1 = files s"
    "checks s1 = checks s"
    by (simp_all add: orders_ok_def)
  from build_model_empty [OF this(1), of args e] f l
  show "\<exists>s'. main args e t2 s
               = Inl (Z3Exception ''Non empty list of arguments expected'', s')
          \<and> files s' = files s \<and> assertions s' = [] \<and> checks s' = checks s"
    by (auto simp: main_def)
qed

theorem input_failures_witness:
  "''prosit_predicted_rt_seconds''
      \<in> {''accession'', ''peptide_sequence'', ''prosit_predicted_rt_seconds''}
   \<and> ''prosit_predicted_rt_seconds'' \<notin> set (header untimed_table)
   \<and> (\<exists>c' s'. main ex_args ex_env untimed_table ex_needler = Inl (AttributeError c', s')
          \<and> files s' = files ex_needler \<and> assertions s' = assertions ex_needler
          \<and> checks s' = checks ex_needler)
   \<and> load ex_args ex_env lone_table ex_needler = Inr lone_loaded
   \<and> nunique (map protein_id (df lone_loaded)) = 0
   \<and> (\<exists>s'. main ex_args ex_env lone_table ex_needler
               = Inl (Z3Exception ''Non empty list of arguments expected'', s')
          \<and> files s' = files ex_needler \<and> assertions s' = [] \<and> checks s' = checks ex_needler)"
proof -
  have c: "''prosit_predicted_rt_seconds''
      \<in> {''accession'', ''peptide_sequence'', ''prosit_predicted_rt_seconds''}" by simp
  have h: "''prosit_predicted_rt_seconds'' \<notin> set (header untimed_table)" by code_simp
  have n: "nunique (map protein_id (df lone_loaded)) = 0" by code_simp
  from input_failures [of "''prosit_predicted_rt_seconds''" untimed_table
      "\<lparr>args_shuffle = False, args_peps_per_prot = 2\<rparr>" ex_env ex_needler
      ex_args lone_table lone_loaded]
    c h n lone_loaded
  show ?thesis unfolding ex_args_def [symmetric] by blast
qed

text \<open>
  The claim as stated fails: with the only protein dropped, \<^verbatim>\<open>load\<close> returns (an empty
  frame) and the exception is raised later, inside \<^verbatim>\<open>build_model\<close>; the program has no
  \<^verbatim>\<open>InputError\<close>.
\<close>

theorem input_failures_counterexample:
  "\<not> isl (load ex_args ex_env lone_table ex_needler)
   \<and> df (projr (load ex_args ex_env lone_table ex_needler)) = []
   \<and> fst (projl (main ex_args ex_env lone_table ex_needler))
       = Z3Exception ''Non empty list of arguments expected''"
  by code_simp

lemma shared_loaded: "load ex_args ex_env shared_table ex_needler = Inr shared_loaded"
proof -
  have "\<not> isl (load ex_args ex_env shared_table ex_needler)" by code_simp
  then show ?thesis by (simp add: shared_loaded_def)
qed

lemma shared_built: "build_model ex_args ex_env shared_loaded = Inr shared_built"
proof -
  have "\<not> isl (build_model ex_args ex_env shared_loaded)" by code_simp
  then show ?thesis by (simp add: shared_built_def)
qed

lemma load_unshuffled:
  assumes "load args e t s = Inr s'" and "\<not> shuffle s"
  shows "\<forall>r\<in>set (df s'). peptide_id r = peptide_sequence r \<and> protein_id r = accession r"
proof -
  from assms obtain s1 s2 where s1: "read_input t s = Inr s1"
    and s2: "drop_proteins args s1 = Inr s2"
    and s': "elution_windows (rt_dtype t) (length (body t))
               (sort_by_size (shuffle_ids e (default_orders s2))) = Inr s'"
    by (auto simp: load_def split: sum.splits)
  let ?s3 = "sort_by_size (shuffle_ids e (default_orders s2))"
  note f1 = read_input_Inr [OF s1] and f2 = drop_proteins_Inr [OF s2]
    and f4 = elution_windows_Inr [OF s']
  from f1 have a1: "\<forall>r\<in>set (df s1). peptide_id r = peptide_sequence r \<and> protein_id r = accession r"
    by auto
  from f2 a1 have a2: "\<forall>r\<in>set (df s2). peptide_id r = peptide_sequence r \<and> protein_id r = accession r"
    by auto
  have "\<not> shuffle s2" using f1 f2 assms(2) by simp
  from arrange_unshuffled [OF this, of e] a2
  have a3: "\<forall>r\<in>set (df ?s3). peptide_id r = peptide_sequence r \<and> protein_id r = accession r"
    by simp
  from f4 a3 show ?thesis by auto
qed

lemma count_list_distinct:
  assumes "distinct xs" and "x \<in> set xs" and "mset ys = mset xs"
  shows "count_list ys x = 1"
proof -
  have "count (mset xs) x = 1" using assms(1,2) by (simp add: distinct_count_atmost_1)
  then show ?thesis using assms(3) by (metis count_mset)
qed

text \<open>
  Claim C10, as amended. When shuffling is off, peptide variables are keyed by peptide
  sequence: the variable of every row is the one named by the row's sequence, whatever
  its protein, no two keys share a variable, and the balance constraint of every protein
  that contains the sequence counts that variable exactly once, with weight 1.
\<close>

theorem variable_per_sequence:
  assumes "\<not> shuffle s" and "load args e t s = Inr s1"
    and "build_model args e s1 = Inr s2" and "r \<in> set (df s2)"
  shows "peptide_id r = peptide_sequence r
         \<and> map_of (peptides s2) (peptide_id r) = Some (peptide_sequence r)
         \<and> distinct (map snd (peptides s2))
         \<and> (\<exists>pbs. Assert (Or (PbEq pbs 0) (PbEq pbs (peps_per_prot s2))) \<in> set (assertions s2)
                \<and> set pbs = {(peptide_sequence x, 1) | x.
                               x \<in> set (df s2) \<and> accession x = accession r}
                \<and> count_list pbs (peptide_sequence r, 1) = 1)"
proof -
  from build_model_Inr [OF assms(3)] obtain pcs ts css
    where a: "assertions s2 = Assert (AtMost (peptide_order s1) (max_targetable s1))
                             # pcs @ SumGt ts 0 # concat css"
      and pcs: "list_all2 (balance_of (df s1) (peps_per_prot s1)) (protein_order s1) pcs"
      and p: "peptides s2 = map (\<lambda>k. (k, k)) (fromkeys (peptide_order s1))"
      and eqs: "df s2 = df s1" "peps_per_prot s2 = peps_per_prot s1"
    by blast
  from load_Inr [OF assms(2)] have ok: "orders_ok s1" by simp
  from load_unshuffled [OF assms(2,1)] eqs
  have ids: "\<forall>x\<in>set (df s2). peptide_id x = peptide_sequence x \<and> protein_id x = accession x"
    by simp
  with assms(4) have r: "peptide_id r = peptide_sequence r" "protein_id r = accession r"
    by auto
  have "peptide_id r \<in> set (peptide_order s1)" "protein_id r \<in> set (protein_order s1)"
    using ok assms(4) eqs by (auto simp: orders_ok_def)
  then have v: "map_of (peptides s2) (peptide_id r) = Some (peptide_sequence r)"
    and prot: "protein_id r \<in> set (protein_order s1)"
    using r by (simp_all add: p map_of_self)
  have d: "distinct (map snd (peptides s2))" by (simp add: p comp_def)
  let ?ids = "remdups (map peptide_id (filter (\<lambda>x. protein_id x = protein_id r) (df s1)))"
  from list_all2_find [OF pcs prot] obtain c
    where c: "c \<in> set pcs" and b: "balance_of (df s1) (peps_per_prot s1) (protein_id r) c"
    by blast
  from b obtain pbs where c_eq: "c = Assert (Or (PbEq pbs 0) (PbEq pbs (peps_per_prot s1)))"
    and pbs: "mset pbs = mset (map (\<lambda>v. (v, 1)) ?ids)"
    unfolding balance_of_def by blast
  have mem: "Assert (Or (PbEq pbs 0) (PbEq pbs (peps_per_prot s2))) \<in> set (assertions s2)"
    using c c_eq a eqs by simp
  have "set pbs = set (map (\<lambda>v. (v, 1::int)) ?ids)" using pbs by (metis set_mset_mset)
  also have "\<dots> = {(peptide_sequence x, 1) | x. x \<in> set (df s2) \<and> accession x = accession r}"
    using ids r eqs by auto
  finally have st: "set pbs = {(peptide_sequence x, 1) | x.
                               x \<in> set (df s2) \<and> accession x = accession r}" .
  have "distinct (map (\<lambda>v. (v, 1::int)) ?ids)" by (simp add: distinct_map inj_on_def)
  moreover have "peptide_id r \<in> set ?ids" using assms(4) eqs by simp
  then have "(peptide_sequence r, 1) \<in> set (map (\<lambda>v. (v, 1::int)) ?ids)"
    unfolding r(1) by (simp only: set_map) (rule imageI)
  ultimately have "count_list pbs (peptide_sequence r, 1) = 1"
    using pbs by (rule count_list_distinct)
  with r v d mem st show ?thesis by blast
qed

theorem variable_per_sequence_witness:
  "\<not> shuffle ex_needler
   \<and> load ex_args ex_env shared_table ex_needler = Inr shared_loaded
   \<and> build_model ex_args ex_env shared_loaded = Inr shared_built
   \<and> df shared_built ! 2 \<in> set (df shared_built)
   \<and> accession (df shared_built ! 2) = ''B''
   \<and> peptide_sequence (df shared_built ! 2) = ''p1''
   \<and> peptide_id (df shared_built ! 2) = ''p1''
   \<and> map_of (peptides shared_built) (peptide_id (df shared_built ! 2)) = Some ''p1''
   \<and> distinct (map snd (peptides shared_built))
   \<and> (\<exists>pbs. Assert (Or (PbEq pbs 0) (PbEq pbs (peps_per_prot shared_built)))
                \<in> set (assertions shared_built)
          \<and> set pbs = {(peptide_sequence x, 1) | x.
                         x \<in> set (df shared_built) \<and> accession x = ''B''}
          \<and> count_list pbs (''p1'', 1) = 1)"
proof -
  have n: "\<not> shuffle ex_needler" by code_simp
  have m: "df shared_built ! 2 \<in> set (df shared_built)" by code_simp
  have a: "accession (df shared_built ! 2) = ''B''" by code_simp
  have q: "peptide_sequence (df shared_built ! 2) = ''p1''" by code_simp
  from variable_per_sequence [OF n shared_loaded shared_built m] n m a q
    shared_loaded shared_built
  show ?thesis by auto
qed

text \<open>
  The claim as stated fails when shuffling is on: every row is given an identifier of its
  own, so the two rows with sequence \<open>p1\<close>, of proteins \<open>A\<close> and \<open>B\<close>, get two variables.
\<close>

theorem variable_per_sequence_counterexample:
  "\<not> isl (load shuffle_args ex_env shared_table shuffle_needler)
   \<and> \<not> isl (build_model shuffle_args ex_env
              (projr (load shuffle_args ex_env shared_table shuffle_needler)))
   \<and> accession (df shared_shuffled ! 1) = ''A''
   \<and> accession (df shared_shuffled ! 2) = ''B''
   \<and> peptide_sequence (df shared_shuffled ! 1) = ''p1''
   \<and> peptide_sequence (df shared_shuffled ! 2) = ''p1''
   \<and> map_of (peptides shared_shuffled) (peptide_id (df shared_shuffled ! 1)) = Some ''x''
   \<and> map_of (peptides shared_shuffled) (peptide_id (df shared_shuffled ! 2)) = Some ''xxx''"
  by code_simp

subsection \<open>The command-line namespace\<close>

lemma protein_step_shuffle_field:
  "assertions (final (protein_step args e p (s\<lparr>shuffle := b\<rparr>)))
     = assertions (final (protein_step args e p s))"
  by (simp add: protein_step_def Let_def split: sum.splits option.splits)

lemma slot_step_shuffle_field:
  "assertions (final (slot_step args e i (s\<lparr>shuffle := b\<rparr>)))
     = assertions (final (slot_step args e i s))"
  by (simp add: slot_step_def Let_def split: sum.splits option.splits)

text \<open>
  Claim C9, as amended. The selection of the rows that stay when \<^verbatim>\<open>load\<close> drops proteins,
  and the shuffling of the variable list of a protein and of a time slot in
  \<^verbatim>\<open>build_model\<close>, read the module-level \<^verbatim>\<open>args\<close>: once the drop is triggered the rows
  that stay are those with at least \<^verbatim>\<open>args.peps_per_prot\<close> peptides, the lists are shuffled
  exactly when \<^verbatim>\<open>args.shuffle\<close> is set, whatever \<^verbatim>\<open>self.shuffle\<close> is, and with \<^verbatim>\<open>args\<close>
  unbound these points raise \<^verbatim>\<open>NameError\<close>. Whether the drop is triggered is decided by
  \<^verbatim>\<open>self.peps_per_prot\<close>.
\<close>

theorem cli_namespace_read:
  "(filter (\<lambda>r. int (protein_peps r) < peps_per_prot s) (df s) \<noteq> [] \<longrightarrow>
      drop_proteins None s = Inl (NameError ''args'', s)
      \<and> df (final (drop_proteins (Some a) s))
          = filter (\<lambda>r. args_peps_per_prot a \<le> int (protein_peps r)) (df s))
   \<and> (lookup_all (peptides s)
         (remdups (map peptide_id (filter (\<lambda>r. protein_id r = p) (df s)))) = Inr vs \<longrightarrow>
      protein_step None e p (s\<lparr>shuffle := b\<rparr>) = Inl (NameError ''args'', s\<lparr>shuffle := b\<rparr>)
      \<and> assertions (final (protein_step (Some a) e p (s\<lparr>shuffle := b\<rparr>)))
          = assertions s @
            [Assert (Or (PbEq (if args_shuffle a
                               then permute (shuffle_protein e p) (map (\<lambda>v. (v, 1)) vs)
                               else map (\<lambda>v. (v, 1)) vs) 0)
                        (PbEq (if args_shuffle a
                               then permute (shuffle_protein e p) (map (\<lambda>v. (v, 1)) vs)
                               else map (\<lambda>v. (v, 1)) vs) (peps_per_prot s)))])
   \<and> (covering (df s) i \<noteq> []
       \<and> lookup_all (peptides s) (remdups (map peptide_id (covering (df s) i))) = Inr ws \<longrightarrow>
      slot_step None e i (s\<lparr>shuffle := b\<rparr>) = Inl (NameError ''args'', s\<lparr>shuffle := b\<rparr>)
      \<and> assertions (final (slot_step (Some a) e i (s\<lparr>shuffle := b\<rparr>)))
          = assertions s @
            [Assert (AtMost (if args_shuffle a then permute (shuffle_slot e i) ws else ws)
                       (targets_per_cycle s))])"
proof (intro conjI impI)
  assume "filter (\<lambda>r. int (protein_peps r) < peps_per_prot s) (df s) \<noteq> []"
  then show "drop_proteins None s = Inl (NameError ''args'', s)"
    and "df (final (drop_proteins (Some a) s))
          = filter (\<lambda>r. args_peps_per_prot a \<le> int (protein_peps r)) (df s)"
    by (simp_all add: drop_proteins_def Let_def)
next
  assume "lookup_all (peptides s)
         (remdups (map peptide_id (filter (\<lambda>r. protein_id r = p) (df s)))) = Inr vs"
  then show "protein_step None e p (s\<lparr>shuffle := b\<rparr>) = Inl (NameError ''args'', s\<lparr>shuffle := b\<rparr>)"
    and "assertions (final (protein_step (Some a) e p (s\<lparr>shuffle := b\<rparr>)))
          = assertions s @
            [Assert (Or (PbEq (if args_shuffle a
                               then permute (shuffle_protein e p) (map (\<lambda>v. (v, 1)) vs)
                               else map (\<lambda>v. (v, 1)) vs) 0)
                        (PbEq (if args_shuffle a
                               then permute (shuffle_protein e p) (map (\<lambda>v. (v, 1)) vs)
                               else map (\<lambda>v. (v, 1)) vs) (peps_per_prot s)))]"
    by (simp_all add: protein_step_def Let_def)
next
  assume "covering (df s) i \<noteq> []
       \<and> lookup_all (peptides s) (remdups (map peptide_id (covering (df s) i))) = Inr ws"
  then show "slot_step None e i (s\<lparr>shuffle := b\<rparr>) = Inl (NameError ''args'', s\<lparr>shuffle := b\<rparr>)"
    and "assertions (final (slot_step (Some a) e i (s\<lparr>shuffle := b\<rparr>)))
          = assertions s @
            [Assert (AtMost (if args_shuffle a then permute (shuffle_slot e i) ws else ws)
                       (targets_per_cycle s))]"
    by (simp_all add: slot_step_def covering_def Let_def)
qed

theorem cli_namespace_read_witness:
  "filter (\<lambda>r. int (protein_peps r) < peps_per_prot mismatched) (df mismatched) \<noteq> []
   \<and> peps_per_prot mismatched = 3 \<and> \<not> shuffle mismatched
   \<and> drop_proteins None mismatched = Inl (NameError ''args'', mismatched)
   \<and> df (final (drop_proteins shuffle_args mismatched)) = df mismatched
   \<and> lookup_all (peptides mismatched)
        (remdups (map peptide_id (filter (\<lambda>r. protein_id r = ''A'') (df mismatched))))
       = Inr [''p1'', ''p2'']
   \<and> protein_step None ex_env ''A'' mismatched = Inl (NameError ''args'', mismatched)
   \<and> assertions (final (protein_step shuffle_args ex_env ''A'' mismatched))
       = assertions mismatched @
         [Assert (Or (PbEq [(''p2'', 1), (''p1'', 1)] 0) (PbEq [(''p2'', 1), (''p1'', 1)] 3))]
   \<and> covering (df mismatched) 1 \<noteq> []
   \<and> lookup_all (peptides mismatched) (remdups (map peptide_id (covering (df mismatched) 1)))
       = Inr [''p3'', ''p1'']
   \<and> slot_step None ex_env 1 mismatched = Inl (NameError ''args'', mismatched)
   \<and> assertions (final (slot_step shuffle_args ex_env 1 mismatched))
       = assertions mismatched @ [Assert (AtMost [''p1'', ''p3''] 1)]"
proof -
  have t: "filter (\<lambda>r. int (protein_peps r) < peps_per_prot mismatched) (df mismatched) \<noteq> []"
    by code_simp
  have k: "peps_per_prot mismatched = 3" "\<not> shuffle mismatched"
    "targets_per_cycle mismatched = 1" by code_simp+
  have f: "filter (\<lambda>r. 2 \<le> int (protein_peps r)) (df mismatched) = df mismatched"
    by code_simp
  have l1: "lookup_all (peptides mismatched)
        (remdups (map peptide_id (filter (\<lambda>r. protein_id r = ''A'') (df mismatched))))
       = Inr [''p1'', ''p2'']" by code_simp
  have c: "covering (df mismatched) 1 \<noteq> []" by code_simp
  have l2: "lookup_all (peptides mismatched)
        (remdups (map peptide_id (covering (df mismatched) 1))) = Inr [''p3'', ''p1'']"
    by code_simp
  have p1: "permute (shuffle_protein ex_env ''A'') [(''p1'', 1::int), (''p2'', 1)]
              = [(''p2'', 1), (''p1'', 1)]" by code_simp
  have p2: "permute (shuffle_slot ex_env 1) [''p3'', ''p1''] = [''p1'', ''p3'']" by code_simp
  have u: "mismatched\<lparr>shuffle := False\<rparr> = mismatched" using k(2) by simp
  from cli_namespace_read [of mismatched "\<lparr>args_shuffle = True, args_peps_per_prot = 2\<rparr>"
      "''A''" "[''p1'', ''p2'']" ex_env False 1 "[''p3'', ''p1'']"]
    t k f l1 c l2 p1 p2 u
  show ?thesis unfolding shuffle_args_def by simp
qed

text \<open>
  The claim as stated, that the instance's \<^verbatim>\<open>peps_per_prot\<close> is ignored where proteins are
  dropped, fails: the test that triggers the drop reads it. With \<^verbatim>\<open>args.peps_per_prot = 2\<close>
  in both runs, an instance with \<^verbatim>\<open>peps_per_prot = 1\<close> keeps protein \<open>C\<close> and its single
  peptide, an instance with \<^verbatim>\<open>peps_per_prot = 2\<close> drops it.
\<close>

theorem cli_namespace_read_counterexample:
  "\<not> isl (load ex_args ex_env ex_table lenient_needler)
   \<and> \<not> isl (load ex_args ex_env ex_table ex_needler)
   \<and> peps_per_prot lenient_needler = 1
   \<and> peps_per_prot ex_needler = 2
   \<and> map accession (df (projr (load ex_args ex_env ex_table lenient_needler)))
       = [''B'', ''A'', ''A'', ''B'', ''C'']
   \<and> map accession (df (projr (load ex_args ex_env ex_table ex_needler)))
       = [''B'', ''A'', ''A'', ''B'']"
  by code_simp

subsection \<open>What the search loop persists\<close>

lemma frame_eq_refl [simp]: "frame_eq s s"
  by (simp add: frame_eq_def)

lemma frame_eq_trans: "frame_eq s s' \<Longrightarrow> frame_eq s' s'' \<Longrightarrow> frame_eq s s''"
  by (simp add: frame_eq_def)

text \<open>The targeted proteins depend on the frame through three columns only.\<close>

lemma protein_targets_keys:
  "protein_targets s =
     (let used = filter fst (map (\<lambda>r. (peptide_in_model r, protein_id r, peptide_id r)) (df s))
      in filter (\<lambda>p. int (nunique (map (\<lambda>k. snd (snd k))
                                   (filter (\<lambda>k. fst (snd k) = p) used))) = peps_per_prot s)
           (remdups (map (\<lambda>k. fst (snd k)) used)))"
  by (simp add: protein_targets_def Let_def filter_map comp_def)

lemma annotate_used_keys:
  "map (\<lambda>r. (peptide_in_model r, protein_id r, peptide_id r)) (df (annotate_used m s))
     = map (\<lambda>r. (peptide_id r \<in> set (used_peptides m s), protein_id r, peptide_id r))
         (map unmarked (df s))"
  by (simp add: annotate_used_def unmarked_def comp_def)

lemma used_peptides_cong: "peptides s = peptides s' \<Longrightarrow> used_peptides m s = used_peptides m s'"
  by (simp add: used_peptides_def)

lemma frame_eq_targets:
  assumes "frame_eq s s'"
  shows "protein_targets (annotate_used m s) = protein_targets (annotate_used m s')"
proof -
  from assms have u: "used_peptides m s = used_peptides m s'"
    and k: "peps_per_prot (annotate_used m s) = peps_per_prot (annotate_used m s')"
    and rows: "map unmarked (df s) = map unmarked (df s')"
    by (simp_all add: frame_eq_def used_peptides_def annotate_used_def)
  have "map (\<lambda>r. (peptide_in_model r, protein_id r, peptide_id r)) (df (annotate_used m s))
      = map (\<lambda>r. (peptide_in_model r, protein_id r, peptide_id r)) (df (annotate_used m s'))"
    unfolding annotate_used_keys u rows ..
  then show ?thesis unfolding protein_targets_keys k by simp
qed

lemma frame_eq_target_of: "frame_eq s s' \<Longrightarrow> target_of s m = target_of s' m"
  by (simp add: target_of_def frame_eq_targets)

lemma annotated_rows:
  "df (annotate_targeted (annotate_used m s))
     = map (\<lambda>r. r\<lparr>peptide_in_model := peptide_id r \<in> set (used_peptides m s),
                   protein_is_targeted :=
                     protein_id r \<in> set (protein_targets (annotate_used m s))\<rparr>)
         (map unmarked (df s))"
  by (simp add: annotate_targeted_def annotate_used_def unmarked_def comp_def)

lemma frame_eq_artifact_of:
  assumes "frame_eq s s'"
  shows "artifact_of s m = artifact_of s' m"
proof -
  from assms have "used_peptides m s = used_peptides m s'"
    and "map unmarked (df s) = map unmarked (df s')"
    by (simp_all add: frame_eq_def used_peptides_def)
  then show ?thesis
    unfolding artifact_of_def annotated_rows frame_eq_targets [OF assms] by simp
qed

lemma frame_eq_annotated:
  "frame_eq s (annotate_targeted (annotate_used m s))"
  by (simp add: frame_eq_def annotated_rows unmarked_def comp_def)
     (simp add: annotate_targeted_def annotate_used_def)


lemma written_cong: "files s' = files s \<Longrightarrow> dst s' = dst s \<Longrightarrow> written s' = written s"
  by (simp add: written_def)

lemma frame_eq_cong:
  "df s' = df s \<Longrightarrow> peptides s' = peptides s \<Longrightarrow> peps_per_prot s' = peps_per_prot s
     \<Longrightarrow> dst s' = dst s \<Longrightarrow> frame_eq s s'"
  by (simp add: frame_eq_def)

text \<open>What \<^verbatim>\<open>save\<close> does to the files at the destination.\<close>

lemma save_written:
  assumes "save s = Inr s'"
  shows "written s' = written s @
           [map project (filter (\<lambda>r. peptide_in_model r \<and> protein_is_targeted r) (df s))]
         \<and> df s' = df s \<and> peptides s' = peptides s \<and> peps_per_prot s' = peps_per_prot s
         \<and> dst s' = dst s \<and> trace s' = trace s \<and> assertions s' = assertions s
         \<and> proteins_targeted s' = proteins_targeted s"
proof -
  have ne: "dst s @ ''.temp'' \<noteq> dst s" by simp
  have flt: "filter (\<lambda>x. fst x \<noteq> dst s @ ''.temp'' \<and> fst x = dst s) (files s)
               = filter (\<lambda>f. fst f = dst s) (files s)"
    using ne by (auto intro: filter_cong)
  from assms show ?thesis
    by (auto simp: save_def Let_def written_def flt split: if_splits list.splits)
qed

lemma save_raises:
  assumes "save s = Inl (err, s')"
  shows "files s' = files s \<and> dst s' = dst s"
  using assms by (auto simp: save_def Let_def split: if_splits list.splits)

lemma annotate_more_fields [simp]:
  "peptides (annotate_used m s) = peptides s"
  "peps_per_prot (annotate_used m s) = peps_per_prot s"
  "dst (annotate_used m s) = dst s"
  "peptides (annotate_targeted s) = peptides s"
  "peps_per_prot (annotate_targeted s) = peps_per_prot s"
  "dst (annotate_targeted s) = dst s"
  by (simp_all add: annotate_used_def annotate_targeted_def)

text \<open>One satisfiable pass of the loop, by its effect on the destination.\<close>

lemma on_sat_improving:
  assumes "best < target_of s m"
  shows "case on_sat best r m s of
           Again best' r' s' \<Rightarrow>
             best' = target_of s m \<and> written s' = written s @ [artifact_of s m] \<and> frame_eq s s'
         | Stop x \<Rightarrow>
             (case x of
                Inl y \<Rightarrow> (\<exists>s1. save s1 = Inl y) \<and> written (snd y) = written s
              | Inr s' \<Rightarrow> written s' = written s @ [artifact_of s m])"
proof -
  let ?a = "annotate_targeted (annotate_used m s)"
  let ?s2 = "(logger DEBUG ''Created model targeting proteins: {} peptides: {}''
                [int (target_of s m), int (length (remdups (used_peptides m s)))] ?a)
               \<lparr>trace := trace s @ [(target_of s m, best, True)]\<rparr>"
  have w2: "written ?s2 = written s" by (simp add: written_def)
  have d2: "df ?s2 = df ?a" by simp
  show ?thesis
  proof (cases "save ?s2")
    case (Inl y)
    obtain err sx where y: "y = (err, sx)" by (cases y)
    from save_raises [of ?s2 err sx] Inl y have "written sx = written s"
      by (simp add: written_def)
    with assms Inl y show ?thesis
      by (auto simp: on_sat_def Let_def target_of_def)
  next
    case (Inr s3)
    from save_written [OF Inr] d2 w2
    have w3: "written s3 = written s @ [artifact_of s m]"
      and f3: "df s3 = df ?a" "peptides s3 = peptides s" "peps_per_prot s3 = peps_per_prot s"
        "dst s3 = dst s"
      by (simp_all add: artifact_of_def)
    have fr: "frame_eq s s3"
      using frame_eq_annotated [of s m] f3 by (simp add: frame_eq_def)
    from assms Inr w3 fr show ?thesis
      by (auto simp: on_sat_def Let_def target_of_def written_def frame_eq_def)
  qed
qed

lemma on_sat_stalled:
  assumes "\<not> best < target_of s m"
  shows "\<exists>s'. on_sat best r m s = Stop (Inr s') \<and> written s' = written s"
  using assms by (simp add: on_sat_def Let_def target_of_def written_def)


lemma reset_budget_frame:
  assumes "reset_budget e i r s = (r', s')"
  shows "frame_eq s s' \<and> written s' = written s"
  using assms by (auto simp: reset_budget_def Let_def frame_eq_def written_def split: if_splits)

lemma pass_on_sat:
  assumes "check e (checks s) (assertions s) = sat m"
  shows "\<exists>r1 s1. optimize_body e best r s = on_sat best r1 m s1
           \<and> frame_eq s s1 \<and> written s1 = written s"
proof -
  obtain r1 s1 where rb: "reset_budget e (checks s) r (s\<lparr>checks := Suc (checks s)\<rparr>) = (r1, s1)"
    by (cases "reset_budget e (checks s) r (s\<lparr>checks := Suc (checks s)\<rparr>)")
  from reset_budget_frame [OF rb]
  have "frame_eq s s1" "written s1 = written s"
    by (simp_all add: frame_eq_def written_def)
  moreover from assms rb have "optimize_body e best r s = on_sat best r1 m s1"
    by (simp add: optimize_body_def Let_def)
  ultimately show ?thesis by blast
qed

lemma pass_not_sat:
  assumes "optimize_body e best r s = L" and "\<forall>m. check e (checks s) (assertions s) \<noteq> sat m"
  shows "\<exists>x. L = Stop x \<and> written (final x) = written s"
proof -
  obtain r1 s1 where rb: "reset_budget e (checks s) r (s\<lparr>checks := Suc (checks s)\<rparr>) = (r1, s1)"
    by (cases "reset_budget e (checks s) r (s\<lparr>checks := Suc (checks s)\<rparr>)")
  from reset_budget_frame [OF rb] have w: "written s1 = written s"
    by (simp add: written_def)
  from assms(2) consider "check e (checks s) (assertions s) = unsat"
    | "check e (checks s) (assertions s) = unknown"
    by (cases "check e (checks s) (assertions s)") auto
  then show ?thesis
  proof cases
    case 1
    with assms(1) rb w show ?thesis
      by (auto simp: optimize_body_def Let_def written_def)
  next
    case 2
    with assms(1) rb w show ?thesis
      by (auto simp: optimize_body_def Let_def written_def split: option.splits)
  qed
qed

lemma pass_sat:
  assumes "check e (checks s) (assertions s) = sat m"
  shows "(best < target_of s m) =
           (case optimize_body e best r s of
              Again best' r' s' \<Rightarrow>
                best' = target_of s m \<and> written s' = written s @ [artifact_of s m]
            | Stop x \<Rightarrow>
                (case x of
                   Inl y \<Rightarrow> (\<exists>s1. save s1 = Inl y)
                 | Inr s' \<Rightarrow> written s' = written s @ [artifact_of s m]))"
proof -
  from pass_on_sat [OF assms, of best r] obtain r1 s1
    where body: "optimize_body e best r s = on_sat best r1 m s1"
      and fr: "frame_eq s s1" and w: "written s1 = written s" by blast
  note t = frame_eq_target_of [OF fr, of m] and a = frame_eq_artifact_of [OF fr, of m]
  show ?thesis
  proof (cases "best < target_of s m")
    case True
    then have "best < target_of s1 m" using t by simp
    from on_sat_improving [OF this, of r1] True show ?thesis
      unfolding body t a w by (auto split: loop.splits sum.splits)
  next
    case False
    then have "\<not> best < target_of s1 m" using t by simp
    from on_sat_stalled [OF this, of r1] False show ?thesis
      unfolding body w by auto
  qed
qed

lemma pass_Again:
  assumes "optimize_body e best r s = Again best' r' s'"
  shows "\<exists>m. check e (checks s) (assertions s) = sat m \<and> best' = target_of s m
           \<and> best < best' \<and> written s' = written s @ [artifact_of s m] \<and> frame_eq s s'"
proof -
  from assms pass_not_sat [of e best r s] obtain m
    where m: "check e (checks s) (assertions s) = sat m" by fastforce
  from pass_on_sat [OF m, of best r] obtain r1 s1
    where body: "optimize_body e best r s = on_sat best r1 m s1"
      and fr: "frame_eq s s1" and w: "written s1 = written s" by blast
  note t = frame_eq_target_of [OF fr, of m] and a = frame_eq_artifact_of [OF fr, of m]
  have imp: "best < target_of s1 m"
    using on_sat_stalled [of best s1 m r1] assms body by fastforce
  from on_sat_improving [OF imp, of r1] assms body
  have "best' = target_of s1 m" "written s' = written s1 @ [artifact_of s1 m]" "frame_eq s1 s'"
    by simp_all
  with m imp fr t a w show ?thesis by (auto intro: frame_eq_trans)
qed

lemma pass_Stop:
  assumes "optimize_body e best r s = Stop x"
  shows "written (final x) = written s
         \<or> (\<exists>m. check e (checks s) (assertions s) = sat m \<and> best < target_of s m
                \<and> written (final x) = written s @ [artifact_of s m])"
proof (cases "\<exists>m. check e (checks s) (assertions s) = sat m")
  case False
  with pass_not_sat [OF assms] show ?thesis by auto
next
  case True
  then obtain m where m: "check e (checks s) (assertions s) = sat m" by blast
  from pass_on_sat [OF m, of best r] obtain r1 s1
    where body: "optimize_body e best r s = on_sat best r1 m s1"
      and fr: "frame_eq s s1" and w: "written s1 = written s" by blast
  note t = frame_eq_target_of [OF fr, of m] and a = frame_eq_artifact_of [OF fr, of m]
  show ?thesis
  proof (cases "best < target_of s1 m")
    case False
    from on_sat_stalled [OF this, of r1] assms body w show ?thesis by auto
  next
    case True
    from on_sat_improving [OF True, of r1] assms body
    have "written (final x) = written s1 \<or> written (final x) = written s1 @ [artifact_of s1 m]"
      by (cases x) (auto simp: final_def)
    with m True t a w show ?thesis by auto
  qed
qed

lemma loop_written:
  assumes "frame_eq s0 s"
  shows "\<exists>ms. written (final (optimize_loop e best r s)) = written s @ map (artifact_of s0) ms
           \<and> sorted_wrt (<) (map (target_of s0) ms)
           \<and> (\<forall>m\<in>set ms. best < target_of s0 m)
           \<and> list_all (\<lambda>m. \<exists>i cs. check e i cs = sat m) ms"
  using assms
proof (induction e best r s rule: optimize_loop.induct)
  case (1 e best r s)
  note t = frame_eq_target_of [OF "1.prems"] and a = frame_eq_artifact_of [OF "1.prems"]
  show ?case
  proof (cases "optimize_body e best r s")
    case (Stop x)
    then have loop: "optimize_loop e best r s = x" by (subst optimize_loop.simps) simp
    from pass_Stop [OF Stop]
    consider "written (final x) = written s"
      | m where "check e (checks s) (assertions s) = sat m" "best < target_of s m"
          "written (final x) = written s @ [artifact_of s m]"
      by blast
    then show ?thesis
    proof cases
      case 1
      then have "written (final x) = written s @ map (artifact_of s0) []" by simp
      then show ?thesis unfolding loop
        by (intro exI [of _ "[]"]) simp
    next
      case 2
      then have "written (final x) = written s @ map (artifact_of s0) [m]"
        and "best < target_of s0 m" and "\<exists>i cs. check e i cs = sat m"
        unfolding t a by auto
      then show ?thesis unfolding loop
        by (intro exI [of _ "[m]"]) simp
    qed
  next
    case (Again best' r' s')
    then have loop: "optimize_loop e best r s = optimize_loop e best' r' s'"
      by (subst optimize_loop.simps) simp
    from pass_Again [OF Again] obtain m
      where m: "check e (checks s) (assertions s) = sat m" and b': "best' = target_of s m"
        and lt: "best < best'" and w: "written s' = written s @ [artifact_of s m]"
        and fr: "frame_eq s s'" by blast
    have fr0: "frame_eq s0 s'" by (rule frame_eq_trans [OF "1.prems" fr])
    from "1.IH" [OF Again fr0] obtain ms
      where w': "written (final (optimize_loop e best' r' s'))
                   = written s' @ map (artifact_of s0) ms"
        and srt: "sorted_wrt (<) (map (target_of s0) ms)"
        and gt: "\<forall>x\<in>set ms. best' < target_of s0 x"
        and sat: "list_all (\<lambda>m. \<exists>i cs. check e i cs = sat m) ms"
      by blast
    have "written (final (optimize_loop e best r s)) = written s @ map (artifact_of s0) (m # ms)"
      unfolding loop w' w a by simp
    moreover have "sorted_wrt (<) (map (target_of s0) (m # ms))"
      using srt gt b' unfolding t by simp
    moreover have "\<forall>x\<in>set (m # ms). best < target_of s0 x"
      using gt lt b' unfolding t by auto
    moreover have "list_all (\<lambda>m. \<exists>i cs. check e i cs = sat m) (m # ms)"
      using sat m by auto
    ultimately show ?thesis by blast
  qed
qed

text \<open>
  Claim C3. In a pass of the loop whose check is satisfiable, the result persister is
  invoked if and only if the pass's \<^verbatim>\<open>protein_target\<close> is strictly greater than
  \<^verbatim>\<open>best_ever_result\<close>: exactly then the pass appends one file to those written at the
  destination, the artifact of the model just found (or ends with the exception
  \<^verbatim>\<open>save\<close> raised), and otherwise the pass writes nothing. Over a whole run, for every
  engine and clock, the files written at the destination are the artifacts of models of
  satisfiable checks whose \<^verbatim>\<open>protein_target\<close> values are strictly increasing.
\<close>

theorem monotonic_improvement:
  "(check e (checks s) (assertions s) = sat m \<longrightarrow>
      (best < target_of s m) =
        (case optimize_body e best r s of
           Again best' r' s' \<Rightarrow>
             best' = target_of s m \<and> written s' = written s @ [artifact_of s m]
         | Stop x \<Rightarrow>
             (case x of
                Inl y \<Rightarrow> (\<exists>s1. save s1 = Inl y)
              | Inr s' \<Rightarrow> written s' = written s @ [artifact_of s m])))
   \<and> (\<exists>ms. written (final (optimize e s0)) = written s0 @ map (artifact_of s0) ms
          \<and> sorted_wrt (<) (map (target_of s0) ms)
          \<and> list_all (\<lambda>m. \<exists>i cs. check e i cs = sat m) ms)"
proof (intro conjI impI)
  assume "check e (checks s) (assertions s) = sat m"
  then show "(best < target_of s m) =
        (case optimize_body e best r s of
           Again best' r' s' \<Rightarrow>
             best' = target_of s m \<and> written s' = written s @ [artifact_of s m]
         | Stop x \<Rightarrow>
             (case x of
                Inl y \<Rightarrow> (\<exists>s1. save s1 = Inl y)
              | Inr s' \<Rightarrow> written s' = written s @ [artifact_of s m]))"
    by (rule pass_sat)
next
  let ?s = "logger INFO ''Begin model evaluation'' [] s0"
  have fr: "frame_eq s0 ?s" by (simp add: frame_eq_def)
  have w: "written ?s = written s0" by (simp add: written_def)
  from loop_written [OF fr, of e 0 None] w
  show "\<exists>ms. written (final (optimize e s0)) = written s0 @ map (artifact_of s0) ms
          \<and> sorted_wrt (<) (map (target_of s0) ms)
          \<and> list_all (\<lambda>m. \<exists>i cs. check e i cs = sat m) ms"
    unfolding optimize_def by auto
qed

theorem monotonic_improvement_witness:
  "check ex_env (checks ex_built) (assertions ex_built) = sat [''p1'', ''p2'']
   \<and> target_of ex_built [''p1'', ''p2''] = 1
   \<and> written ex_built = []
   \<and> written (final (optimize ex_env ex_built))
       = [[(''A'', ''p1'', 1, 0, 2), (''A'', ''p2'', 5, 4, 6)]]
   \<and> (0 < target_of ex_built [''p1'', ''p2'']) =
        (case optimize_body ex_env 0 None ex_built of
           Again best' r' s' \<Rightarrow>
             best' = target_of ex_built [''p1'', ''p2'']
             \<and> written s' = written ex_built @ [artifact_of ex_built [''p1'', ''p2'']]
         | Stop x \<Rightarrow>
             (case x of
                Inl y \<Rightarrow> (\<exists>s1. save s1 = Inl y)
              | Inr s' \<Rightarrow> written s' = written ex_built @ [artifact_of ex_built [''p1'', ''p2'']]))
   \<and> (\<exists>ms. written (final (optimize ex_env ex_built))
               = written ex_built @ map (artifact_of ex_built) ms
          \<and> sorted_wrt (<) (map (target_of ex_built) ms)
          \<and> list_all (\<lambda>m. \<exists>i cs. check ex_env i cs = sat m) ms)"
proof -
  have "checks ex_built = 0" by code_simp
  then have c: "check ex_env (checks ex_built) (assertions ex_built) = sat [''p1'', ''p2'']"
    by (simp add: ex_env_def)
  have t: "target_of ex_built [''p1'', ''p2''] = 1" by code_simp
  have w0: "written ex_built = []" by code_simp
  have w1: "written (final (optimize ex_env ex_built))
       = [[(''A'', ''p1'', 1, 0, 2), (''A'', ''p2'', 5, 4, 6)]]" by code_simp
  note inst = monotonic_improvement [of ex_env ex_built "[''p1'', ''p2'']" 0 None ex_built]
  from inst c have p1: "(0 < target_of ex_built [''p1'', ''p2'']) =
        (case optimize_body ex_env 0 None ex_built of
           Again best' r' s' \<Rightarrow>
             best' = target_of ex_built [''p1'', ''p2'']
             \<and> written s' = written ex_built @ [artifact_of ex_built [''p1'', ''p2'']]
         | Stop x \<Rightarrow>
             (case x of
                Inl y \<Rightarrow> (\<exists>s1. save s1 = Inl y)
              | Inr s' \<Rightarrow> written s' = written ex_built @ [artifact_of ex_built [''p1'', ''p2'']]))"
    by blast
  from inst have p2: "\<exists>ms. written (final (optimize ex_env ex_built))
               = written ex_built @ map (artifact_of ex_built) ms
          \<and> sorted_wrt (<) (map (target_of ex_built) ms)
          \<and> list_all (\<lambda>m. \<exists>i cs. check ex_env i cs = sat m) ms"
    by blast
  from c t w0 w1 p1 p2 show ?thesis by (intro conjI)
qed

end
